theory Spec2Isabelle
  imports Main "HOL-Library.Sublist" "HOL-Library.Log_Nat"
begin

section \<open>Values\<close>

text \<open>
  Python exceptions raised by the modelled code. A function that may raise returns
  \<open>error + 'a\<close>, with \<open>Inl\<close> for the exception.
\<close>

datatype error = ValueError | KeyError string | TypeError | AttributeError | OverflowError

text \<open>
  A floating-point value (a float64, which also holds every float32 and float16).
  Finite values are the rationals they denote; the two zeros are not told apart (they
  compare equal in Python).
\<close>

datatype f64 = Finite rat | PosInf | NegInf | NaN

text \<open>
  The values a DataFrame cell (and so an argument of the per-cell functions) can hold:
  \<open>None\<close>, an int, a float, a bool, a str, a Timestamp (nanoseconds of wall-clock time
  since 1970-01-01 00:00), the missing timestamp \<open>NaT\<close>, and a list of strings.
  A str is a list of code points below 256, which is what \<open>char\<close> holds.
\<close>

datatype cell = PyNone | I int | F f64 | B bool | S string | T int | NaT | SL "string list"

text \<open>\<open>pd.isna\<close> on a scalar.\<close>

fun isna :: "cell \<Rightarrow> bool" where
  "isna PyNone = True"
| "isna (F NaN) = True"
| "isna NaT = True"
| "isna _ = False"

section \<open>Floating point\<close>

text \<open>
  Rounding of a real number to the nearest number of a binary floating-point type, ties
  to even: the significand \<open>m\<close> and the exponent \<open>e\<close> of the result \<open>m * 2^e\<close>, with the
  exponent of the subnormal numbers as the least one, and an infinity when the rounded
  value leaves the range.
\<close>

definition pow2 :: "int \<Rightarrow> rat" where
  "pow2 k = 2 powi k"

text \<open>The integer part of the binary logarithm of a positive rational.\<close>

definition ilog2 :: "rat \<Rightarrow> int" where
  "ilog2 x = (let (p, q) = quotient_of x; k = bitlen p - bitlen q
              in if pow2 k \<le> x then k else k - 1)"

definition round_half_even :: "rat \<Rightarrow> int" where
  "round_half_even x =
     (let f = \<lfloor>x\<rfloor>; d = x - of_int f
      in if d < 1 / 2 then f else if 1 / 2 < d then f + 1 else if even f then f else f + 1)"

text \<open>
  The binary floating-point types of numpy: the bits of the significand, the exponent
  of the least subnormal number, and the exponent of the power of two at which the
  rounded value has left the range.
\<close>

datatype float_format = Half | Single | Double

fun precision :: "float_format \<Rightarrow> int" where
  "precision Half = 11"
| "precision Single = 24"
| "precision Double = 53"

fun least_exponent :: "float_format \<Rightarrow> int" where
  "least_exponent Half = - 24"
| "least_exponent Single = - 149"
| "least_exponent Double = - 1074"

fun overflow_exponent :: "float_format \<Rightarrow> int" where
  "overflow_exponent Half = 16"
| "overflow_exponent Single = 128"
| "overflow_exponent Double = 1024"

definition round_to :: "float_format \<Rightarrow> rat \<Rightarrow> f64" where
  "round_to fmt x =
     (if x = 0 then Finite 0
      else let a = \<bar>x\<bar>;
               e = max (ilog2 a - (precision fmt - 1)) (least_exponent fmt);
               v = of_int (round_half_even (a / pow2 e)) * pow2 e
           in if pow2 (overflow_exponent fmt) \<le> v then (if 0 < x then PosInf else NegInf)
              else Finite (if 0 < x then v else - v))"

text \<open>Rounding to float64.\<close>

definition fl :: "rat \<Rightarrow> f64" where
  "fl x = round_to Double x"

fun f64_neg :: "f64 \<Rightarrow> f64" where
  "f64_neg (Finite x) = Finite (- x)"
| "f64_neg PosInf = NegInf"
| "f64_neg NegInf = PosInf"
| "f64_neg NaN = NaN"

text \<open>
  Multiplication and addition in a floating-point type (IEEE 754): the exact result,
  rounded to the type.
\<close>

fun float_mul :: "float_format \<Rightarrow> f64 \<Rightarrow> f64 \<Rightarrow> f64" where
  "float_mul fmt NaN b = NaN"
| "float_mul fmt a NaN = NaN"
| "float_mul fmt (Finite x) (Finite y) = round_to fmt (x * y)"
| "float_mul fmt (Finite x) b = (if x = 0 then NaN else if 0 < x then b else f64_neg b)"
| "float_mul fmt a (Finite y) = (if y = 0 then NaN else if 0 < y then a else f64_neg a)"
| "float_mul fmt a b = (if a = b then PosInf else NegInf)"

fun float_add :: "float_format \<Rightarrow> f64 \<Rightarrow> f64 \<Rightarrow> f64" where
  "float_add fmt NaN b = NaN"
| "float_add fmt a NaN = NaN"
| "float_add fmt (Finite x) (Finite y) = round_to fmt (x + y)"
| "float_add fmt (Finite x) b = b"
| "float_add fmt a (Finite y) = a"
| "float_add fmt a b = (if a = b then a else NaN)"

text \<open>The operations of float64, and an integer converted to float64.\<close>

definition f64_mul :: "f64 \<Rightarrow> f64 \<Rightarrow> f64" where
  "f64_mul a b = float_mul Double a b"

definition f64_add :: "f64 \<Rightarrow> f64 \<Rightarrow> f64" where
  "f64_add a b = float_add Double a b"

definition f64_of_int :: "int \<Rightarrow> f64" where
  "f64_of_int n = fl (of_int n)"

section \<open>Text\<close>

text \<open>
  The character classes of Python 3 on the code points below 256: \<open>str.isspace\<close> (used by
  \<open>str.split\<close> and by \<open>\s\<close>), \<open>\w\<close> (\<open>str.isalnum\<close> or the underscore) and
  \<open>str.lower\<close>.
\<close>

definition is_space :: "char \<Rightarrow> bool" where
  "is_space c = (let n = (of_char c :: nat) in
     (9 \<le> n \<and> n \<le> 13) \<or> (28 \<le> n \<and> n \<le> 32) \<or> n = 133 \<or> n = 160)"

definition is_word :: "char \<Rightarrow> bool" where
  "is_word c = (let n = (of_char c :: nat) in
     (48 \<le> n \<and> n \<le> 57) \<or> (65 \<le> n \<and> n \<le> 90) \<or> n = 95 \<or> (97 \<le> n \<and> n \<le> 122) \<or>
     n = 170 \<or> n = 178 \<or> n = 179 \<or> n = 181 \<or> n = 185 \<or> n = 186 \<or>
     (188 \<le> n \<and> n \<le> 190) \<or> (192 \<le> n \<and> n \<le> 214) \<or> (216 \<le> n \<and> n \<le> 246) \<or>
     (248 \<le> n \<and> n \<le> 255))"

definition lower_char :: "char \<Rightarrow> char" where
  "lower_char c = (let n = (of_char c :: nat) in
     if (65 \<le> n \<and> n \<le> 90) \<or> (192 \<le> n \<and> n \<le> 222 \<and> n \<noteq> 215)
     then char_of (n + 32) else c)"

definition lower :: "string \<Rightarrow> string" where
  "lower s = map lower_char s"

text \<open>
  One alternative \<open>lit\S+\<close> of the URL pattern, tried at the head of the text: the
  literal, then at least one non-space character, then (greedily) every further
  non-space character. The result is the text after the match.
\<close>

definition lit_nonspace :: "string \<Rightarrow> string \<Rightarrow> string option" where
  "lit_nonspace lit s =
     (if prefix lit s then
        (case drop (length lit) s of
           [] \<Rightarrow> None
         | c # rest \<Rightarrow> if is_space c then None else Some (dropWhile (\<lambda>x. \<not> is_space x) rest))
      else None)"

text \<open>\<open>http\S+|www\S+|https\S+\<close> at the head of the text, alternatives in order.\<close>

definition url_match :: "string \<Rightarrow> string option" where
  "url_match s =
     (case lit_nonspace ''http'' s of
        Some r \<Rightarrow> Some r
      | None \<Rightarrow>
         (case lit_nonspace ''www'' s of
            Some r \<Rightarrow> Some r
          | None \<Rightarrow> lit_nonspace ''https'' s))"

lemma lit_nonspace_shorter: "lit_nonspace lit s = Some r \<Longrightarrow> length r < length s"
proof -
  assume a: "lit_nonspace lit s = Some r"
  then obtain c rest where d: "drop (length lit) s = c # rest"
    and r: "r = dropWhile (\<lambda>x. \<not> is_space x) rest"
    by (auto simp: lit_nonspace_def split: if_splits list.splits)
  have "length r \<le> length rest" using r by (simp add: length_dropWhile_le)
  moreover have "length rest < length s"
  proof -
    have "length (drop (length lit) s) = Suc (length rest)" using d by simp
    then show ?thesis by simp
  qed
  ultimately show ?thesis by simp
qed

lemma url_match_shorter: "url_match s = Some r \<Longrightarrow> length r < length s"
  by (auto simp: url_match_def split: option.splits dest: lit_nonspace_shorter)

text \<open>\<open>re.sub(r'http\S+|www\S+|https\S+', '', text)\<close>: leftmost matches, left to right.\<close>

function remove_urls :: "string \<Rightarrow> string" where
  "remove_urls [] = []"
| "remove_urls (c # cs) =
     (case url_match (c # cs) of
        Some rest \<Rightarrow> remove_urls rest
      | None \<Rightarrow> c # remove_urls cs)"
  by pat_completeness auto
termination
  by (relation "measure length") (auto dest: url_match_shorter)

text \<open>\<open>re.sub(r'[^\w\s]', '', text)\<close>.\<close>

definition remove_special :: "string \<Rightarrow> string" where
  "remove_special s = filter (\<lambda>c. is_word c \<or> is_space c) s"

text \<open>\<open>text.split()\<close>: the maximal runs of non-space characters.\<close>

function split_ws :: "string \<Rightarrow> string list" where
  "split_ws s =
     (case dropWhile is_space s of
        [] \<Rightarrow> []
      | c # cs \<Rightarrow>
          takeWhile (\<lambda>x. \<not> is_space x) (c # cs) # split_ws (dropWhile (\<lambda>x. \<not> is_space x) cs))"
  by pat_completeness auto
termination
proof (relation "measure length", goal_cases)
  case 1
  show ?case by simp
next
  case (2 s c cs)
  have "length (dropWhile (\<lambda>x. \<not> is_space x) cs) \<le> length cs"
    by (simp add: length_dropWhile_le)
  moreover have "length (dropWhile is_space s) \<le> length s"
    by (simp add: length_dropWhile_le)
  ultimately show ?case using 2 by simp
qed

declare split_ws.simps [simp del]

text \<open>\<open>' '.join(parts)\<close>.\<close>

fun join_space :: "string list \<Rightarrow> string" where
  "join_space [] = []"
| "join_space [w] = w"
| "join_space (w # v # ws) = w @ '' '' @ join_space (v # ws)"

text \<open>The body of the \<open>try\<close> block of \<open>TextPreprocessor.clean_text\<close> on a str.\<close>

definition clean_str :: "string \<Rightarrow> string" where
  "clean_str text = join_space (split_ws (remove_special (remove_urls (lower text))))"

text \<open>
  \<open>TextPreprocessor.clean_text\<close>. \<open>pd.isna\<close> is called before the \<open>try\<close>: on a list of
  two or more elements it returns an array, whose truth value raises \<open>ValueError\<close>; a
  shorter list is not missing. For any other value that is not a str, \<open>text.lower()\<close>
  raises \<open>AttributeError\<close> inside the \<open>try\<close>, and the handler returns the empty string.
\<close>

fun clean_text :: "cell \<Rightarrow> error + string" where
  "clean_text (SL xs) = (if 2 \<le> length xs then Inl ValueError else Inr [])"
| "clean_text (S text) = Inr (clean_str text)"
| "clean_text c = Inr []"

text \<open>
  The shape of a normalised text: only word characters and the space character, no
  whitespace at either end, no two spaces in a row.
\<close>

fun double_space :: "string \<Rightarrow> bool" where
  "double_space (a # b # cs) = ((a = CHR '' '' \<and> b = CHR '' '') \<or> double_space (b # cs))"
| "double_space _ = False"

definition clean_shape :: "string \<Rightarrow> bool" where
  "clean_shape s =
     ((\<forall>c\<in>set s. is_word c \<or> c = CHR '' '') \<and>
      (s \<noteq> [] \<longrightarrow> \<not> is_space (hd s) \<and> \<not> is_space (last s)) \<and>
      \<not> double_space s)"

text \<open>The URL pattern matches somewhere in the text.\<close>

fun has_url :: "string \<Rightarrow> bool" where
  "has_url [] = False"
| "has_url (c # cs) = (url_match (c # cs) \<noteq> None \<or> has_url cs)"

text \<open>A non-empty run of word characters.\<close>

definition word_token :: "string \<Rightarrow> bool" where
  "word_token t = (t \<noteq> [] \<and> (\<forall>c\<in>set t. is_word c))"

text \<open>The number of characters that are not whitespace.\<close>

definition nonspace :: "string \<Rightarrow> nat" where
  "nonspace s = length (filter (\<lambda>c. \<not> is_space c) s)"

text \<open>A value that is a list, which the annotation \<open>text: str\<close> excludes.\<close>

fun is_list :: "cell \<Rightarrow> bool" where
  "is_list (SL xs) = True"
| "is_list _ = False"

fun is_str :: "cell \<Rightarrow> bool" where
  "is_str (S x) = True"
| "is_str _ = False"

section \<open>Trending topics\<close>

definition stop_words :: "string list" where
  "stop_words = [''the'', ''and'', ''is'', ''in'', ''to'', ''a'', ''for'']"

text \<open>
  \<open>word_counts[word] += 1\<close> on a \<open>defaultdict(int)\<close>. A dict keeps its keys in the order
  of their first insertion, so it is an association list to which a new key is appended.
\<close>

fun bump :: "(string \<times> int) list \<Rightarrow> string \<Rightarrow> (string \<times> int) list" where
  "bump [] w = [(w, 1)]"
| "bump ((k, c) # kvs) w = (if k = w then (k, c + 1) # kvs else (k, c) # bump kvs w)"

text \<open>The counting loop \<open>for word in words: word_counts[word] += 1\<close>.\<close>

definition count_words :: "string list \<Rightarrow> (string \<times> int) list" where
  "count_words ws = foldl bump [] ws"

text \<open>
  \<open>sorted(xs, key=key, reverse=True)\<close>: Python's sort is stable, and \<open>reverse=True\<close> keeps
  elements with equal keys in their original order. An element is placed after the
  elements with a greater key and before every later element with an equal or smaller key.
\<close>

fun insert_desc :: "('a \<Rightarrow> int) \<Rightarrow> 'a \<Rightarrow> 'a list \<Rightarrow> 'a list" where
  "insert_desc key x [] = [x]"
| "insert_desc key x (y # ys) =
     (if key x < key y then y # insert_desc key x ys else x # y # ys)"

definition sorted_reverse :: "('a \<Rightarrow> int) \<Rightarrow> 'a list \<Rightarrow> 'a list" where
  "sorted_reverse key xs = foldr (insert_desc key) xs []"

text \<open>
  The words that are counted: \<open>' '.join(texts)\<close>, lowercased, split on whitespace, without
  the stop words and the words of one or two characters.
\<close>

definition topic_words :: "string list \<Rightarrow> string list" where
  "topic_words texts =
     filter (\<lambda>w. w \<notin> set stop_words \<and> length w > 2) (split_ws (lower (join_space texts)))"

text \<open>
  \<open>DataProcessor.identify_trending_topics\<close>. An entry \<open>{'topic': word, 'count': count}\<close> is
  the pair \<open>(word, count)\<close>; \<open>min_count\<close> is \<open>default_min_count\<close> when the caller gives
  none. On a list of strings and an int nothing in the \<open>try\<close> block
  raises, so the handler that returns the empty list is not entered.
\<close>

definition default_min_count :: int where
  "default_min_count = 3"

definition identify_trending_topics :: "string list \<Rightarrow> int \<Rightarrow> (string \<times> int) list" where
  "identify_trending_topics texts min_count =
     (let words = topic_words texts;
          word_counts = count_words words;
          trending = filter (\<lambda>(word, count). count \<ge> min_count) word_counts
      in sorted_reverse snd trending)"

text \<open>The position at which a word is first encountered.\<close>

definition first_index :: "'a list \<Rightarrow> 'a \<Rightarrow> nat" where
  "first_index xs x = length (takeWhile (\<lambda>y. y \<noteq> x) xs)"

text \<open>
  The order of the result in the words of the specification: by count, the greater
  first; among equal counts, the word encountered first.
\<close>

definition trending_order :: "string list \<Rightarrow> string \<times> int \<Rightarrow> string \<times> int \<Rightarrow> bool" where
  "trending_order ws a b =
     (snd b < snd a \<or> (snd a = snd b \<and> first_index ws (fst a) < first_index ws (fst b)))"

text \<open>
  Splitting on whitespace in the words of the specification: the maximal runs of
  characters that are not whitespace, read off in one pass with the run in progress.
\<close>

fun runs_from :: "string \<Rightarrow> string \<Rightarrow> string list" where
  "runs_from run [] = (if run = [] then [] else [rev run])"
| "runs_from run (c # cs) =
     (if is_space c then (if run = [] then runs_from [] cs else rev run # runs_from [] cs)
      else runs_from (c # run) cs)"

definition whitespace_tokens :: "string \<Rightarrow> string list" where
  "whitespace_tokens s = runs_from [] s"

text \<open>
  The tokens of the specification: the texts joined, lowercased and split on whitespace,
  without the stop words and without the tokens of length at most 2.
\<close>

definition spec_tokens :: "string list \<Rightarrow> string list" where
  "spec_tokens texts =
     filter (\<lambda>w. w \<notin> {''the'', ''and'', ''is'', ''in'', ''to'', ''a'', ''for''} \<and> \<not> length w \<le> 2)
       (whitespace_tokens (map lower_char (join_space texts)))"

text \<open>
  The result in the words of the specification: the pairs of a token and the number of
  its occurrences, for the tokens that occur at least \<open>min_count\<close> times, in the order
  above.
\<close>

definition trending_spec :: "string list \<Rightarrow> int \<Rightarrow> (string \<times> int) list \<Rightarrow> bool" where
  "trending_spec texts min_count result =
     (let ws = spec_tokens texts in
      set result =
        set (filter (\<lambda>(w, c). c \<ge> min_count) (map (\<lambda>w. (w, int (count_list ws w))) ws)) \<and>
      sorted_wrt (trending_order ws) result)"

section \<open>Data frames\<close>

text \<open>
  The column types. Of the numeric dtypes of numpy the model has the 64-bit integers,
  the floats of 16, 32 and 64 bits and the booleans; the narrower and the unsigned
  integers, the complex numbers and the extension types of pandas are left out.
\<close>

datatype dtype = Int64 | Float16 | Float32 | Float64 | Bool | Datetime64 | Object

record column =
  dtype :: dtype
  cells :: "cell list"

text \<open>
  A DataFrame: its columns, in order, by name. \<open>frame\<close> values stand for the state of a
  DataFrame object; the code assigns columns to the object it is given.
\<close>

type_synonym frame = "(string \<times> column) list"

text \<open>What a variable of the code can be bound to: a DataFrame or some other object.\<close>

datatype pyobj = DataFrame frame | NoFrame

text \<open>\<open>df[name]\<close>.\<close>

definition get_column :: "frame \<Rightarrow> string \<Rightarrow> error + column" where
  "get_column df name = (case map_of df name of None \<Rightarrow> Inl (KeyError name) | Some c \<Rightarrow> Inr c)"

text \<open>\<open>df[name] = col\<close>: an existing column is replaced where it stands, a new one is added last.\<close>

fun set_column :: "frame \<Rightarrow> string \<Rightarrow> column \<Rightarrow> frame" where
  "set_column [] name col = [(name, col)]"
| "set_column ((n, c) # df) name col =
     (if n = name then (n, col) # df else (n, c) # set_column df name col)"

text \<open>\<open>len(df)\<close>; a frame without columns has no rows.\<close>

fun nrows :: "frame \<Rightarrow> nat" where
  "nrows [] = 0"
| "nrows ((n, c) # df) = length (cells c)"

text \<open>
  The frames pandas builds: every column has one cell per row, and the cells of a typed
  column have that type (an \<open>Int64\<close> cell is a 64-bit integer). Timestamps and \<open>NaT\<close> are
  held by \<open>Datetime64\<close> columns, never by \<open>Object\<close> columns.
\<close>

fun cell_fits :: "dtype \<Rightarrow> cell \<Rightarrow> bool" where
  "cell_fits Int64 (I n) = (- (2 ^ 63) \<le> n \<and> n < 2 ^ 63)"
| "cell_fits Float16 (F x) = True"
| "cell_fits Float32 (F x) = True"
| "cell_fits Float64 (F x) = True"
| "cell_fits Bool (B b) = True"
| "cell_fits Datetime64 (T t) = True"
| "cell_fits Datetime64 NaT = True"
| "cell_fits Object (T t) = False"
| "cell_fits Object NaT = False"
| "cell_fits Object c = True"
| "cell_fits d c = False"

definition wf_column :: "nat \<Rightarrow> column \<Rightarrow> bool" where
  "wf_column n col = (length (cells col) = n \<and> list_all (cell_fits (dtype col)) (cells col))"

definition wf_frame :: "frame \<Rightarrow> bool" where
  "wf_frame df = (distinct (map fst df) \<and> list_all (\<lambda>(n, c). wf_column (nrows df) c) df)"

section \<open>Validator\<close>

definition required_columns :: "string list" where
  "required_columns =
     [''title'', ''text'', ''score'', ''created_utc'', ''num_comments'', ''upvote_ratio'']"

text \<open>\<open>pd.api.types.is_numeric_dtype\<close>, \<open>is_datetime64_any_dtype\<close>, \<open>is_float_dtype\<close>.\<close>

definition is_numeric_dtype :: "dtype \<Rightarrow> bool" where
  "is_numeric_dtype d = (d = Int64 \<or> d = Float16 \<or> d = Float32 \<or> d = Float64 \<or> d = Bool)"

definition is_datetime64_any_dtype :: "dtype \<Rightarrow> bool" where
  "is_datetime64_any_dtype d = (d = Datetime64)"

definition is_float_dtype :: "dtype \<Rightarrow> bool" where
  "is_float_dtype d = (d = Float16 \<or> d = Float32 \<or> d = Float64)"

text \<open>
  The \<open>try\<close> block of \<open>DataValidator.validate_reddit_data\<close>. On an object that is not a
  DataFrame, \<open>df.columns\<close> raises \<open>AttributeError\<close>.
\<close>

fun validate_checks :: "pyobj \<Rightarrow> error + bool" where
  "validate_checks NoFrame = Inl AttributeError"
| "validate_checks (DataFrame df) =
     (if \<not> list_all (\<lambda>col. col \<in> set (map fst df)) required_columns then Inr False
      else case get_column df ''score'' of Inl e \<Rightarrow> Inl e | Inr score \<Rightarrow>
        if \<not> is_numeric_dtype (dtype score) then Inr False
      else case get_column df ''created_utc'' of Inl e \<Rightarrow> Inl e | Inr created_utc \<Rightarrow>
        if \<not> is_datetime64_any_dtype (dtype created_utc) then Inr False
      else case get_column df ''num_comments'' of Inl e \<Rightarrow> Inl e | Inr num_comments \<Rightarrow>
        if \<not> is_numeric_dtype (dtype num_comments) then Inr False
      else case get_column df ''upvote_ratio'' of Inl e \<Rightarrow> Inl e | Inr upvote_ratio \<Rightarrow>
        if \<not> is_float_dtype (dtype upvote_ratio) then Inr False
      else case get_column df ''title'' of Inl e \<Rightarrow> Inl e | Inr title \<Rightarrow>
        if list_ex isna (cells title) then Inr False
      else Inr True)"

text \<open>\<open>DataValidator.validate_reddit_data\<close>: the handler turns every exception into \<open>False\<close>.\<close>

definition validate_reddit_data :: "pyobj \<Rightarrow> bool" where
  "validate_reddit_data obj = (case validate_checks obj of Inl e \<Rightarrow> False | Inr ok \<Rightarrow> ok)"

text \<open>
  The checks in the words of the specification: the column is there and its dtype (or
  its cells) pass the test.
\<close>

definition column_has :: "frame \<Rightarrow> string \<Rightarrow> (column \<Rightarrow> bool) \<Rightarrow> bool" where
  "column_has df name P = (case map_of df name of None \<Rightarrow> False | Some c \<Rightarrow> P c)"

definition valid_shape :: "frame \<Rightarrow> bool" where
  "valid_shape df =
     (column_has df ''title'' (\<lambda>c. \<not> list_ex isna (cells c)) \<and>
      column_has df ''text'' (\<lambda>c. True) \<and>
      column_has df ''score'' (\<lambda>c. is_numeric_dtype (dtype c)) \<and>
      column_has df ''created_utc'' (\<lambda>c. is_datetime64_any_dtype (dtype c)) \<and>
      column_has df ''num_comments'' (\<lambda>c. is_numeric_dtype (dtype c)) \<and>
      column_has df ''upvote_ratio'' (\<lambda>c. is_float_dtype (dtype c)))"

section \<open>Timestamps\<close>

text \<open>
  The fields pandas reads off a timestamp, given as nanoseconds since 1970-01-01 00:00
  (a Thursday): the hour, the name of the day, and the ISO 8601 week.
\<close>

definition ns_per_hour :: int where
  "ns_per_hour = 3600000000000"

definition ns_per_day :: int where
  "ns_per_day = 86400000000000"

definition hour_of :: "int \<Rightarrow> int" where
  "hour_of t = (t div ns_per_hour) mod 24"

definition day_names :: "string list" where
  "day_names =
     [''Monday'', ''Tuesday'', ''Wednesday'', ''Thursday'', ''Friday'', ''Saturday'', ''Sunday'']"

text \<open>The day of the week, Monday being 0.\<close>

definition weekday_of :: "int \<Rightarrow> int" where
  "weekday_of t = (t div ns_per_day + 3) mod 7"

definition day_name_of :: "int \<Rightarrow> string" where
  "day_name_of t = day_names ! nat (weekday_of t)"

text \<open>
  The number of days from 0001-01-01 to the first of January of a year, and the year
  that a day (counted from 0001-01-01) lies in, in the proleptic Gregorian calendar.
\<close>

definition days_before_year :: "int \<Rightarrow> int" where
  "days_before_year y = 365 * (y - 1) + (y - 1) div 4 - (y - 1) div 100 + (y - 1) div 400"

definition year_of_ordinal :: "int \<Rightarrow> int" where
  "year_of_ordinal n =
     (let n400 = n div 146097; r400 = n mod 146097;
          n100 = min (r400 div 36524) 3; r100 = r400 - n100 * 36524;
          n4 = r100 div 1461; r4 = r100 mod 1461;
          n1 = min (r4 div 365) 3
      in 400 * n400 + 100 * n100 + 4 * n4 + n1 + 1)"

text \<open>
  The ISO week of a day is the week of the year of its Thursday, counted from the week
  that holds the first Thursday of that year.
\<close>

definition iso_week_of :: "int \<Rightarrow> int" where
  "iso_week_of t =
     (let day = t div ns_per_day + 719162;
          thursday = day - weekday_of t + 3;
          year_start = days_before_year (year_of_ordinal thursday)
      in (thursday - year_start) div 7 + 1)"

section \<open>Column arithmetic and the datetime accessor\<close>

text \<open>Running a fallible function over a list; the first exception ends the run.\<close>

fun traverse :: "('a \<Rightarrow> error + 'b) \<Rightarrow> 'a list \<Rightarrow> error + 'b list" where
  "traverse f [] = Inr []"
| "traverse f (x # xs) =
     (case f x of
        Inl e \<Rightarrow> Inl e
      | Inr y \<Rightarrow> (case traverse f xs of Inl e \<Rightarrow> Inl e | Inr ys \<Rightarrow> Inr (y # ys)))"

text \<open>
  A cell as an operand of float arithmetic. An int, a float and a bool are numbers (an
  int that would round to an infinity raises \<open>OverflowError\<close>: the least such is
  \<open>2^1024 - 2^970\<close>). A missing value gives \<open>NaN\<close>: in an object column pandas leaves the
  missing cells out of the operation and fills their results with \<open>NaN\<close>. For a str, a
  list or a timestamp the operation raises \<open>TypeError\<close>.
\<close>

fun to_f64 :: "cell \<Rightarrow> error + f64" where
  "to_f64 (I n) =
     (if \<bar>n\<bar> < 2 ^ 1024 - 2 ^ 970 then Inr (f64_of_int n) else Inl OverflowError)"
| "to_f64 (F x) = Inr x"
| "to_f64 (B b) = Inr (Finite (if b then 1 else 0))"
| "to_f64 PyNone = Inr NaN"
| "to_f64 NaT = Inr NaN"
| "to_f64 c = Inl TypeError"

text \<open>
  The float type of the result of \<open>series * k\<close> for a Python float \<open>k\<close>: that of a float
  column, and float64 for every other column.
\<close>

fun float_type :: "dtype \<Rightarrow> float_format" where
  "float_type Float16 = Half"
| "float_type Float32 = Single"
| "float_type d = Double"

text \<open>
  The float type of an operation on two columns is the wider of the two types that the
  columns bring: a float column its own, a bool column the narrowest, every other column
  float64.
\<close>

fun operand_type :: "dtype \<Rightarrow> float_format" where
  "operand_type Float16 = Half"
| "operand_type Float32 = Single"
| "operand_type Bool = Half"
| "operand_type d = Double"

fun wider :: "float_format \<Rightarrow> float_format \<Rightarrow> float_format" where
  "wider Double b = Double"
| "wider a Double = Double"
| "wider Single b = Single"
| "wider a Single = Single"
| "wider Half Half = Half"

fun dtype_of_format :: "float_format \<Rightarrow> dtype" where
  "dtype_of_format Half = Float16"
| "dtype_of_format Single = Float32"
| "dtype_of_format Double = Float64"

text \<open>The dtype of the result: an operation with an object column gives an object column.\<close>

definition float_result :: "dtype list \<Rightarrow> float_format \<Rightarrow> dtype" where
  "float_result ds fmt = (if Object \<in> set ds then Object else dtype_of_format fmt)"

text \<open>
  \<open>series * k\<close> for a float \<open>k\<close> that every float type holds (the code has \<open>1.0\<close> and
  \<open>2.0\<close>), cell by cell. A datetime column does not multiply with a float.
\<close>

definition mul_scalar :: "column \<Rightarrow> f64 \<Rightarrow> error + column" where
  "mul_scalar col k =
     (if dtype col = Datetime64 then Inl TypeError
      else case traverse
                  (\<lambda>c. case to_f64 c of
                          Inl e \<Rightarrow> Inl e
                        | Inr x \<Rightarrow> Inr (F (float_mul (float_type (dtype col)) x k)))
                  (cells col) of
             Inl e \<Rightarrow> Inl e
           | Inr cs \<Rightarrow> Inr \<lparr>dtype = float_result [dtype col] (float_type (dtype col)), cells = cs\<rparr>)"

text \<open>
  \<open>left + right\<close> and \<open>left * right\<close> for two columns of one frame, cell by cell, where
  the left one holds floats (it is the result of float arithmetic). Where either cell
  is missing the result is \<open>NaN\<close>, whatever the other cell holds.
\<close>

definition float_binop ::
  "(float_format \<Rightarrow> f64 \<Rightarrow> f64 \<Rightarrow> f64) \<Rightarrow> column \<Rightarrow> column \<Rightarrow> error + column" where
  "float_binop f left right =
     (let fmt = wider (operand_type (dtype left)) (operand_type (dtype right)) in
      if dtype left = Datetime64 \<or> dtype right = Datetime64 then Inl TypeError
      else case traverse
                  (\<lambda>(a, b). if isna a \<or> isna b then Inr (F NaN)
                     else case to_f64 a of Inl e \<Rightarrow> Inl e
                     | Inr x \<Rightarrow> (case to_f64 b of Inl e \<Rightarrow> Inl e | Inr y \<Rightarrow> Inr (F (f fmt x y))))
                  (zip (cells left) (cells right)) of
             Inl e \<Rightarrow> Inl e
           | Inr cs \<Rightarrow> Inr \<lparr>dtype = float_result [dtype left, dtype right] fmt, cells = cs\<rparr>)"

text \<open>
  \<open>series.dt.hour\<close>, \<open>series.dt.day_name()\<close> and \<open>series.dt.isocalendar().week\<close>. The
  accessor \<open>.dt\<close> raises \<open>AttributeError\<close> unless the column is a datetime column. A missing
  timestamp has no hour: its hour and its day name are \<open>NaN\<close> and its week is missing, and
  the hours of a column that holds one are floats.
\<close>

fun hour_cell :: "bool \<Rightarrow> cell \<Rightarrow> cell" where
  "hour_cell False (T t) = I (hour_of t)"
| "hour_cell True (T t) = F (f64_of_int (hour_of t))"
| "hour_cell as_float c = F NaN"

fun day_name_cell :: "cell \<Rightarrow> cell" where
  "day_name_cell (T t) = S (day_name_of t)"
| "day_name_cell c = F NaN"

fun week_cell :: "cell \<Rightarrow> cell" where
  "week_cell (T t) = I (iso_week_of t)"
| "week_cell c = PyNone"

definition has_nat :: "column \<Rightarrow> bool" where
  "has_nat col = list_ex (\<lambda>c. c = NaT) (cells col)"

definition dt_hour :: "column \<Rightarrow> error + column" where
  "dt_hour col =
     (if dtype col \<noteq> Datetime64 then Inl AttributeError
      else Inr \<lparr>dtype = (if has_nat col then Float64 else Int64),
                 cells = map (hour_cell (has_nat col)) (cells col)\<rparr>)"

definition dt_day_name :: "column \<Rightarrow> error + column" where
  "dt_day_name col =
     (if dtype col \<noteq> Datetime64 then Inl AttributeError
      else Inr \<lparr>dtype = Object, cells = map day_name_cell (cells col)\<rparr>)"

definition dt_week :: "column \<Rightarrow> error + column" where
  "dt_week col =
     (if dtype col \<noteq> Datetime64 then Inl AttributeError
      else Inr \<lparr>dtype = (if has_nat col then Object else Int64),
                 cells = map week_cell (cells col)\<rparr>)"

section \<open>Engagement metrics\<close>

text \<open>
  The expression \<open>(df['score'] * 1.0 + df['num_comments'] * 2.0) * df['upvote_ratio']\<close>,
  evaluated left to right.
\<close>

definition engagement_score :: "frame \<Rightarrow> error + column" where
  "engagement_score df =
     (case get_column df ''score'' of Inl e \<Rightarrow> Inl e | Inr score \<Rightarrow>
      case mul_scalar score (Finite 1) of Inl e \<Rightarrow> Inl e | Inr a \<Rightarrow>
      case get_column df ''num_comments'' of Inl e \<Rightarrow> Inl e | Inr num_comments \<Rightarrow>
      case mul_scalar num_comments (Finite 2) of Inl e \<Rightarrow> Inl e | Inr b \<Rightarrow>
      case float_binop float_add a b of Inl e \<Rightarrow> Inl e | Inr s \<Rightarrow>
      case get_column df ''upvote_ratio'' of Inl e \<Rightarrow> Inl e | Inr upvote_ratio \<Rightarrow>
      float_binop float_mul s upvote_ratio)"

text \<open>
  The \<open>try\<close> block of \<open>DataProcessor.calculate_engagement_metrics\<close>: three assignments to
  the frame it is given. The result is the exception, if one was raised, and the frame
  as the assignments made before it have left it.
\<close>

definition engagement_steps :: "frame \<Rightarrow> error option \<times> frame" where
  "engagement_steps df =
     (case engagement_score df of Inl e \<Rightarrow> (Some e, df) | Inr score \<Rightarrow>
      let df1 = set_column df ''engagement_score'' score in
      case get_column df1 ''created_utc'' of Inl e \<Rightarrow> (Some e, df1) | Inr created \<Rightarrow>
      case dt_hour created of Inl e \<Rightarrow> (Some e, df1) | Inr hour \<Rightarrow>
      let df2 = set_column df1 ''hour_of_day'' hour in
      case get_column df2 ''created_utc'' of Inl e \<Rightarrow> (Some e, df2) | Inr created2 \<Rightarrow>
      case dt_day_name created2 of Inl e \<Rightarrow> (Some e, df2) | Inr day \<Rightarrow>
      (None, set_column df2 ''day_of_week'' day))"

text \<open>
  \<open>DataProcessor.calculate_engagement_metrics\<close>: it returns the frame it was given, at
  the end of the \<open>try\<close> block and from the handler alike.
\<close>

definition calculate_engagement_metrics :: "frame \<Rightarrow> frame" where
  "calculate_engagement_metrics df = snd (engagement_steps df)"

text \<open>The cell of a column in a row, when the frame has both.\<close>

definition cell_at :: "frame \<Rightarrow> string \<Rightarrow> nat \<Rightarrow> cell option" where
  "cell_at df name i =
     (case map_of df name of
        None \<Rightarrow> None
      | Some col \<Rightarrow> if i < length (cells col) then Some (cells col ! i) else None)"

text \<open>The number in a cell of a column, as the float arithmetic reads it.\<close>

definition num_at :: "frame \<Rightarrow> string \<Rightarrow> nat \<Rightarrow> f64 option" where
  "num_at df name i =
     (case cell_at df name i of
        None \<Rightarrow> None
      | Some c \<Rightarrow> (case to_f64 c of Inl e \<Rightarrow> None | Inr x \<Rightarrow> Some x))"

text \<open>The dtype of a column.\<close>

definition column_dtype :: "frame \<Rightarrow> string \<Rightarrow> dtype option" where
  "column_dtype df name = map_option dtype (map_of df name)"

text \<open>
  The engagement formula on the numbers of one row, in float64 arithmetic, and in the
  arithmetic that the dtypes of the three columns bring: each product with the literal
  in the float type of its column, the sum in the wider of the two, and the product
  with the ratio in the wider of that and the type of the ratio.
\<close>

definition engagement_formula :: "f64 \<Rightarrow> f64 \<Rightarrow> f64 \<Rightarrow> f64" where
  "engagement_formula score num_comments upvote_ratio =
     f64_mul (f64_add (f64_mul score (Finite 1)) (f64_mul num_comments (Finite 2))) upvote_ratio"

definition engagement_formula_in ::
  "dtype \<Rightarrow> dtype \<Rightarrow> dtype \<Rightarrow> f64 \<Rightarrow> f64 \<Rightarrow> f64 \<Rightarrow> f64" where
  "engagement_formula_in d_score d_comments d_ratio score num_comments upvote_ratio =
     (let t_score = float_type d_score;
          t_comments = float_type d_comments;
          t_sum = wider t_score t_comments;
          t_product = wider t_sum (operand_type d_ratio)
      in float_mul t_product
           (float_add t_sum (float_mul t_score score (Finite 1))
                            (float_mul t_comments num_comments (Finite 2)))
           upvote_ratio)"

section \<open>Sample data\<close>

text \<open>
  The frame of the fixture \<open>sample_reddit_data\<close> of the tests, with 2024-01-15 12:30,
  13:30 and 14:30 (a Monday) for its three timestamps, which the fixture takes from the
  clock.
\<close>

definition sample_reddit_data :: frame where
  "sample_reddit_data =
     [(''title'', \<lparr>dtype = Object, cells =
         [S ''AAPL earnings discussion'', S ''GME to the moon'', S ''Technical analysis of TSLA'']\<rparr>),
      (''text'', \<lparr>dtype = Object, cells =
         [S ''Apple earnings beat expectations $AAPL'',
          S ''GME showing strong momentum @wallstreetbets'',
          S ''TSLA price target increased by analysts'']\<rparr>),
      (''score'', \<lparr>dtype = Int64, cells = [I 100, I 150, I 75]\<rparr>),
      (''created_utc'', \<lparr>dtype = Datetime64, cells =
         [T 1705321800000000000, T 1705325400000000000, T 1705329000000000000]\<rparr>),
      (''num_comments'', \<lparr>dtype = Int64, cells = [I 50, I 75, I 25]\<rparr>),
      (''upvote_ratio'', \<lparr>dtype = Float64, cells =
         [F (fl (95 / 100)), F (fl (88 / 100)), F (fl (92 / 100))]\<rparr>),
      (''author'', \<lparr>dtype = Object, cells = [S ''user1'', S ''user2'', S ''user3'']\<rparr>),
      (''id'', \<lparr>dtype = Object, cells = [S ''abc123'', S ''def456'', S ''ghi789'']\<rparr>)]"

text \<open>
  One post of the fixture, once with a missing timestamp (\<open>NaT\<close>) and once with the raw
  epoch seconds of the collector in a float column.
\<close>

definition undated_post :: frame where
  "undated_post =
     [(''title'', \<lparr>dtype = Object, cells = [S ''AAPL earnings discussion'']\<rparr>),
      (''text'', \<lparr>dtype = Object, cells = [S ''Apple earnings beat expectations $AAPL'']\<rparr>),
      (''score'', \<lparr>dtype = Int64, cells = [I 100]\<rparr>),
      (''created_utc'', \<lparr>dtype = Datetime64, cells = [NaT]\<rparr>),
      (''num_comments'', \<lparr>dtype = Int64, cells = [I 50]\<rparr>),
      (''upvote_ratio'', \<lparr>dtype = Float64, cells = [F (fl (95 / 100))]\<rparr>)]"

definition epoch_post :: frame where
  "epoch_post =
     [(''title'', \<lparr>dtype = Object, cells = [S ''AAPL earnings discussion'']\<rparr>),
      (''text'', \<lparr>dtype = Object, cells = [S ''Apple earnings beat expectations $AAPL'']\<rparr>),
      (''score'', \<lparr>dtype = Int64, cells = [I 100]\<rparr>),
      (''created_utc'', \<lparr>dtype = Float64, cells = [F (f64_of_int 1705321800)]\<rparr>),
      (''num_comments'', \<lparr>dtype = Int64, cells = [I 50]\<rparr>),
      (''upvote_ratio'', \<lparr>dtype = Float64, cells = [F (fl (95 / 100))]\<rparr>)]"

text \<open>A post held in float32 columns.\<close>

definition single_post :: frame where
  "single_post =
     [(''title'', \<lparr>dtype = Object, cells = [S ''GME to the moon'']\<rparr>),
      (''text'', \<lparr>dtype = Object, cells = [S ''GME showing strong momentum @wallstreetbets'']\<rparr>),
      (''score'', \<lparr>dtype = Float32, cells = [F (Finite 16777215)]\<rparr>),
      (''created_utc'', \<lparr>dtype = Datetime64, cells = [T 1705325400000000000]\<rparr>),
      (''num_comments'', \<lparr>dtype = Float32, cells = [F (Finite 1)]\<rparr>),
      (''upvote_ratio'', \<lparr>dtype = Float32, cells = [F (Finite 1)]\<rparr>)]"

section \<open>Properties of the float64 rounding\<close>


lemma pow2_pos: "0 < pow2 k"
  by (simp add: pow2_def)

lemma pow2_add: "pow2 (a + b) = pow2 a * pow2 b"
  by (simp add: pow2_def power_int_add)

lemma pow2_less_iff: "pow2 a < pow2 b \<longleftrightarrow> a < b"
  unfolding pow2_def
  by (metis less_irrefl linorder_less_linear one_less_numeral_iff order_less_trans
      power_int_strict_increasing semiring_norm(76))

lemma pow2_le_iff: "pow2 a \<le> pow2 b \<longleftrightarrow> a \<le> b"
  using pow2_less_iff[of b a] by (auto simp: not_less[symmetric])

lemma pow2_nat: "0 \<le> k \<Longrightarrow> pow2 k = 2 ^ nat k"
  by (simp add: pow2_def power_int_nonneg_exp)

lemma ilog2_bounds:
  assumes "0 < x"
  shows "pow2 (ilog2 x) \<le> x \<and> x < pow2 (ilog2 x + 1)"
proof -
  obtain p q where pq: "quotient_of x = (p, q)" by force
  have q: "0 < q" using quotient_of_denom_pos[OF pq] .
  have x: "x = of_int p / of_int q" using quotient_of_div[OF pq] .
  have p: "0 < p" using assms q x by (simp add: zero_less_divide_iff)
  define k where "k = bitlen p - bitlen q"
  have bp: "2 ^ nat (bitlen p - 1) \<le> p" "p < 2 ^ nat (bitlen p)" using bitlen_bounds[OF p] by auto
  have bq: "2 ^ nat (bitlen q - 1) \<le> q" "q < 2 ^ nat (bitlen q)" using bitlen_bounds[OF q] by auto
  have lp: "1 \<le> bitlen p" using p by (simp add: bitlen_alt_def)
  have lq: "1 \<le> bitlen q" using q by (simp add: bitlen_alt_def)
  have P1: "pow2 (bitlen p - 1) \<le> of_int p"
  proof -
    have "(of_int (2 ^ nat (bitlen p - 1)) :: rat) \<le> of_int p" using bp(1) by (simp only: of_int_le_iff)
    then show ?thesis using lp by (simp add: pow2_nat)
  qed
  have P2: "of_int p < pow2 (bitlen p)"
  proof -
    have "(of_int p :: rat) < of_int (2 ^ nat (bitlen p))" using bp(2) by (simp only: of_int_less_iff)
    then show ?thesis using lp by (simp add: pow2_nat)
  qed
  have Q1: "pow2 (bitlen q - 1) \<le> of_int q"
  proof -
    have "(of_int (2 ^ nat (bitlen q - 1)) :: rat) \<le> of_int q" using bq(1) by (simp only: of_int_le_iff)
    then show ?thesis using lq by (simp add: pow2_nat)
  qed
  have Q2: "of_int q < pow2 (bitlen q)"
  proof -
    have "(of_int q :: rat) < of_int (2 ^ nat (bitlen q))" using bq(2) by (simp only: of_int_less_iff)
    then show ?thesis using lq by (simp add: pow2_nat)
  qed
  have qr: "(0::rat) < of_int q" using q by simp
  have up: "x < pow2 (k + 1)"
  proof -
    have "pow2 (k + 1) * of_int q \<ge> pow2 (k + 1) * pow2 (bitlen q - 1)"
      using Q1 pow2_pos[of "k + 1"] by (simp add: mult_left_mono)
    moreover have "pow2 (k + 1) * pow2 (bitlen q - 1) = pow2 (bitlen p)"
      by (simp add: pow2_add[symmetric] k_def)
    ultimately have "of_int p < pow2 (k + 1) * of_int q" using P2 by simp
    then show ?thesis unfolding x using qr by (simp add: pos_divide_less_eq)
  qed
  have lo: "pow2 (k - 1) < x"
  proof -
    have "pow2 (k - 1) * of_int q < pow2 (k - 1) * pow2 (bitlen q)"
      using Q2 pow2_pos[of "k - 1"] by (simp add: mult_strict_left_mono)
    moreover have "pow2 (k - 1) * pow2 (bitlen q) = pow2 (bitlen p - 1)"
      by (simp add: pow2_add[symmetric] k_def)
    ultimately have "pow2 (k - 1) * of_int q < of_int p" using P1 by simp
    then show ?thesis unfolding x using qr by (simp add: pos_less_divide_eq)
  qed
  have il: "ilog2 x = (if pow2 k \<le> x then k else k - 1)"
    by (simp add: ilog2_def pq k_def)
  show ?thesis
  proof (cases "pow2 k \<le> x")
    case True
    with il up show ?thesis by simp
  next
    case False
    with il lo show ?thesis by simp
  qed
qed

lemma ilog2_unique:
  assumes "0 < x" and "pow2 k \<le> x" and "x < pow2 (k + 1)"
  shows "ilog2 x = k"
proof -
  from ilog2_bounds[OF assms(1)] have a: "pow2 (ilog2 x) \<le> x" and b: "x < pow2 (ilog2 x + 1)" by auto
  have "pow2 k < pow2 (ilog2 x + 1)" using assms(2) b by simp
  then have "k < ilog2 x + 1" by (simp add: pow2_less_iff)
  moreover have "pow2 (ilog2 x) < pow2 (k + 1)" using assms(3) a by simp
  then have "ilog2 x < k + 1" by (simp add: pow2_less_iff)
  ultimately show ?thesis by simp
qed


lemma round_half_even_near:
  assumes "\<bar>x - of_int m\<bar> < 1 / 2"
  shows "round_half_even x = m"
proof (cases "of_int m \<le> x")
  case True
  then have f: "\<lfloor>x\<rfloor> = m" using assms by (intro floor_unique) auto
  then show ?thesis using assms True by (simp add: round_half_even_def Let_def)
next
  case False
  then have f: "\<lfloor>x\<rfloor> = m - 1" using assms by (intro floor_unique) auto
  have "1 / 2 < x - of_int (m - 1)" using assms False by auto
  then show ?thesis using f by (simp add: round_half_even_def Let_def)
qed

text \<open>
  Rounding a positive number of the normal range: with \<open>2^k \<le> x < 2^(k+1)\<close>, the result is
  the multiple of \<open>2^(k-p+1)\<close> nearest to \<open>x\<close>, for the precision \<open>p\<close>.
\<close>

lemma round_to_near:
  assumes "0 < x" and "pow2 k \<le> x" and "x < pow2 (k + 1)"
    and "least_exponent fmt \<le> k - (precision fmt - 1)"
    and "\<bar>x / pow2 (k - (precision fmt - 1)) - of_int m\<bar> < 1 / 2"
    and "of_int m * pow2 (k - (precision fmt - 1)) < pow2 (overflow_exponent fmt)"
  shows "round_to fmt x = Finite (of_int m * pow2 (k - (precision fmt - 1)))"
proof -
  let ?e = "k - (precision fmt - 1)"
  have "ilog2 \<bar>x\<bar> = k" using assms(1-3) by (simp add: ilog2_unique)
  moreover have "max ?e (least_exponent fmt) = ?e" using assms(4) by simp
  moreover have "round_half_even (\<bar>x\<bar> / pow2 ?e) = m"
    using assms(1,5) by (simp add: round_half_even_near)
  ultimately show ?thesis using assms(1,6) by (simp add: round_to_def Let_def)
qed

lemma fl_near:
  assumes "0 < x" and "pow2 k \<le> x" and "x < pow2 (k + 1)" and "- 1022 \<le> k"
    and "\<bar>x / pow2 (k - 52) - of_int m\<bar> < 1 / 2"
    and "of_int m * pow2 (k - 52) < pow2 1024"
  shows "fl x = Finite (of_int m * pow2 (k - 52))"
  using round_to_near[of x k Double m] assms by (simp add: fl_def)

lemma f64_mul_Finite [simp]: "f64_mul (Finite x) (Finite y) = fl (x * y)"
  by (simp add: f64_mul_def fl_def)

lemma f64_add_Finite [simp]: "f64_add (Finite x) (Finite y) = fl (x + y)"
  by (simp add: f64_add_def fl_def)

lemma pow2_numeral [simp]:
  "pow2 (numeral n) = 2 ^ numeral n"
  "pow2 (- numeral n) = 1 / 2 ^ numeral n"
  "pow2 0 = 1"
  "pow2 1 = 2"
  "pow2 (- 1) = 1 / 2"
  by (simp_all add: pow2_def power_int_minus_divide)

lemma fl_100: "fl 100 = Finite 100"
  using fl_near[of 100 6 "100 * 2 ^ 46"] by simp

lemma fl_200: "fl 200 = Finite 200"
  using fl_near[of 200 7 "200 * 2 ^ 45"] by simp

lemma fl_095: "fl (19 / 20) = Finite (4278419646001971 / 4503599627370496)"
  using fl_near[of "19 / 20" "- 1" 8556839292003942] by simp

lemma fl_190: "fl (106960491150049275 / 562949953421312) = Finite 190"
  using fl_near[of "106960491150049275 / 562949953421312" 7 6685030696878080] by simp

lemma fl_50: "fl 50 = Finite 50"
  using fl_near[of 50 5 "50 * 2 ^ 47"] by simp

lemma round_to_Double: "round_to Double x = fl x"
  by (simp add: fl_def)

lemmas sample_floats = f64_of_int_def round_to_Double fl_50 fl_100 fl_200 fl_095 fl_190

lemma engagement_example:
  "f64_mul (f64_add (f64_mul (f64_of_int 100) (Finite 1)) (f64_mul (f64_of_int 50) (Finite 2)))
     (fl (95 / 100)) = Finite 190"
  by (simp add: sample_floats)

section \<open>Properties of text normalisation\<close>

lemma word_not_space: "is_word c \<Longrightarrow> \<not> is_space c"
  by (auto simp: is_word_def is_space_def Let_def)

lemma space_is_space: "is_space CHR '' ''"
  by (simp add: is_space_def)

lemma split_ws_none:
  assumes "dropWhile is_space s = []"
  shows "split_ws s = []"
  by (subst split_ws.simps) (simp only: assms list.case)

lemma split_ws_some:
  assumes "dropWhile is_space s = c # cs"
  shows "split_ws s =
    takeWhile (\<lambda>x. \<not> is_space x) (c # cs) # split_ws (dropWhile (\<lambda>x. \<not> is_space x) cs)"
  by (subst split_ws.simps) (simp only: assms list.case)

lemma split_ws_tokens:
  "t \<in> set (split_ws s) \<Longrightarrow> t \<noteq> [] \<and> (\<forall>c\<in>set t. \<not> is_space c \<and> c \<in> set s)"
proof (induction s arbitrary: t rule: split_ws.induct)
  case (1 s)
  show ?case
  proof (cases "dropWhile is_space s")
    case Nil
    with 1(2) show ?thesis by (simp only: split_ws_none) simp
  next
    case (Cons c cs)
    have nsp: "\<not> is_space c" using Cons hd_dropWhile[of is_space s] by auto
    have sub: "set (c # cs) \<subseteq> set s" using Cons set_dropWhileD[of _ is_space s] by auto
    from 1(2) Cons have "t = takeWhile (\<lambda>x. \<not> is_space x) (c # cs) \<or>
        t \<in> set (split_ws (dropWhile (\<lambda>x. \<not> is_space x) cs))"
      by (simp add: split_ws_some)
    then show ?thesis
    proof
      assume t: "t = takeWhile (\<lambda>x. \<not> is_space x) (c # cs)"
      then have "t \<noteq> []" using nsp by simp
      moreover have "\<forall>x\<in>set t. \<not> is_space x" unfolding t by (auto dest: set_takeWhileD)
      moreover have "set t \<subseteq> set (c # cs)" unfolding t by (auto dest: set_takeWhileD)
      ultimately show ?thesis using sub by blast
    next
      assume "t \<in> set (split_ws (dropWhile (\<lambda>x. \<not> is_space x) cs))"
      from 1(1)[OF Cons this] have "t \<noteq> []" and
          a: "\<forall>x\<in>set t. \<not> is_space x \<and> x \<in> set (dropWhile (\<lambda>x. \<not> is_space x) cs)" by auto
      have "set (dropWhile (\<lambda>x. \<not> is_space x) cs) \<subseteq> set cs" by (auto dest: set_dropWhileD)
      with a sub \<open>t \<noteq> []\<close> show ?thesis by auto
    qed
  qed
qed

lemma double_space_append:
  "double_space (xs @ ys) \<longleftrightarrow>
     double_space xs \<or> double_space ys \<or>
     (xs \<noteq> [] \<and> ys \<noteq> [] \<and> last xs = CHR '' '' \<and> hd ys = CHR '' '')"
proof (induction xs rule: double_space.induct)
  case (1 a b cs)
  then show ?case by auto
qed (cases ys; auto)+

lemma join_space_Cons:
  "join_space (w # ws) = (if ws = [] then w else w @ CHR '' '' # join_space ws)"
  by (cases ws) auto

lemma join_space_nonempty: "word_token w \<Longrightarrow> join_space (w # ws) \<noteq> []"
  by (simp add: join_space_Cons word_token_def)

lemma word_token_no_double: "word_token w \<Longrightarrow> \<not> double_space w"
proof (induction w rule: double_space.induct)
  case (1 a b cs)
  have "is_word a" using 1(2) by (simp add: word_token_def)
  then have "a \<noteq> CHR '' ''" using word_not_space space_is_space by auto
  moreover have "word_token (b # cs)" using 1(2) by (simp add: word_token_def)
  ultimately show ?case using 1(1) by simp
qed simp_all

lemma word_token_ends:
  assumes "word_token w"
  shows "\<not> is_space (hd w)" and "\<not> is_space (last w)" and "hd w \<noteq> CHR '' ''" and "last w \<noteq> CHR '' ''"
proof -
  have "w \<noteq> []" and "is_word (hd w)" and "is_word (last w)"
    using assms by (auto simp: word_token_def)
  then show "\<not> is_space (hd w)" and "\<not> is_space (last w)" and "hd w \<noteq> CHR '' ''" and "last w \<noteq> CHR '' ''"
    using word_not_space space_is_space by auto
qed

lemma join_space_shape:
  "\<forall>t\<in>set ts. word_token t \<Longrightarrow> clean_shape (join_space ts)"
proof (induction ts rule: join_space.induct)
  case 1
  show ?case by (simp add: clean_shape_def)
next
  case (2 w)
  then have w: "word_token w" by simp
  show ?case
    using w word_token_no_double[OF w] word_token_ends[OF w]
    by (auto simp: clean_shape_def word_token_def)
next
  case (3 w v ws)
  then have w: "word_token w" and v: "word_token v" by simp_all
  let ?r = "join_space (v # ws)"
  have ih: "clean_shape ?r" using 3 by simp
  have rne: "?r \<noteq> []" using join_space_nonempty[OF v] .
  have hdr: "hd ?r = hd v" using v by (simp add: join_space_Cons word_token_def)
  have wne: "w \<noteq> []" using w by (simp add: word_token_def)
  have "join_space (w # v # ws) = w @ (CHR '' '' # ?r)" by simp
  moreover have "\<not> double_space (w @ (CHR '' '' # ?r))"
  proof -
    have "\<not> double_space (CHR '' '' # ?r)"
      using ih rne hdr word_token_ends(3)[OF v] by (cases ?r) (auto simp: clean_shape_def)
    then show ?thesis
      using word_token_no_double[OF w] word_token_ends(4)[OF w] wne
      by (simp add: double_space_append)
  qed
  moreover have "\<forall>c\<in>set (w @ (CHR '' '' # ?r)). is_word c \<or> c = CHR '' ''"
    using ih w by (auto simp: clean_shape_def word_token_def)
  moreover have "hd (w @ (CHR '' '' # ?r)) = hd w" using wne by simp
  moreover have "last (w @ (CHR '' '' # ?r)) = last ?r" using rne by simp
  ultimately show ?case
    using ih rne word_token_ends(1)[OF w] by (simp add: clean_shape_def)
qed


lemma clean_str_tokens:
  assumes "t \<in> set (split_ws (remove_special s))"
  shows "word_token t"
proof -
  from split_ws_tokens[OF assms] have ne: "t \<noteq> []"
    and b: "\<forall>c\<in>set t. \<not> is_space c \<and> c \<in> set (remove_special s)" by blast+
  have "\<forall>c\<in>set t. is_word c"
  proof
    fix c assume "c \<in> set t"
    with b have "\<not> is_space c" and "c \<in> set (remove_special s)" by auto
    then show "is_word c" by (simp add: remove_special_def)
  qed
  with ne show ?thesis by (simp add: word_token_def)
qed

lemma clean_str_shape: "clean_shape (clean_str text)"
  unfolding clean_str_def by (rule join_space_shape) (auto dest: clean_str_tokens)

lemma nonspace_simps [simp]:
  "nonspace [] = 0"
  "nonspace (c # cs) = (if is_space c then nonspace cs else Suc (nonspace cs))"
  "nonspace (xs @ ys) = nonspace xs + nonspace ys"
  by (simp_all add: nonspace_def)

lemma nonspace_dropWhile: "nonspace (dropWhile P s) \<le> nonspace s"
proof -
  have "nonspace s = nonspace (takeWhile P s) + nonspace (dropWhile P s)"
    by (metis nonspace_simps(3) takeWhile_dropWhile_id)
  then show ?thesis by simp
qed


lemma nonspace_drop: "nonspace (drop n s) \<le> nonspace s"
proof -
  have "nonspace s = nonspace (take n s) + nonspace (drop n s)"
    by (metis nonspace_simps(3) append_take_drop_id)
  then show ?thesis by simp
qed

lemma lit_nonspace_fewer:
  assumes "lit_nonspace lit s = Some r"
  shows "nonspace r < nonspace s"
proof -
  from assms obtain c rest where d: "drop (length lit) s = c # rest"
    and c: "\<not> is_space c" and r: "r = dropWhile (\<lambda>x. \<not> is_space x) rest"
    by (auto simp: lit_nonspace_def split: if_splits list.splits)
  have "nonspace r \<le> nonspace rest" unfolding r by (rule nonspace_dropWhile)
  also have "\<dots> < nonspace (c # rest)" using c by simp
  also have "\<dots> \<le> nonspace s" using nonspace_drop[of "length lit" s] d by simp
  finally show ?thesis .
qed

lemma url_match_fewer: "url_match s = Some r \<Longrightarrow> nonspace r < nonspace s"
  by (auto simp: url_match_def split: option.splits dest: lit_nonspace_fewer)

lemma remove_urls_nonspace_le: "nonspace (remove_urls s) \<le> nonspace s"
proof (induction s rule: remove_urls.induct)
  case 1
  show ?case by simp
next
  case (2 c cs)
  show ?case
  proof (cases "url_match (c # cs)")
    case None
    with 2 show ?thesis by simp
  next
    case (Some r)
    with 2 have "nonspace (remove_urls r) \<le> nonspace r" by simp
    with url_match_fewer[OF Some] Some show ?thesis by simp
  qed
qed

lemma remove_urls_no_url: "\<not> has_url s \<Longrightarrow> remove_urls s = s"
  by (induction s) auto

lemma remove_urls_has_url: "has_url s \<Longrightarrow> nonspace (remove_urls s) < nonspace s"
proof (induction s rule: remove_urls.induct)
  case 1
  then show ?case by simp
next
  case (2 c cs)
  show ?case
  proof (cases "url_match (c # cs)")
    case None
    with 2 show ?thesis by auto
  next
    case (Some r)
    have "nonspace (remove_urls r) \<le> nonspace r" by (rule remove_urls_nonspace_le)
    with url_match_fewer[OF Some] Some show ?thesis by simp
  qed
qed

lemma split_ws_space:
  assumes "is_space c"
  shows "split_ws (c # s) = split_ws s"
proof (cases "dropWhile is_space s")
  case Nil
  then have "dropWhile is_space (c # s) = []" using assms by simp
  then show ?thesis using Nil by (simp only: split_ws_none)
next
  case (Cons d ds)
  then have "dropWhile is_space (c # s) = d # ds" using assms by simp
  then show ?thesis using Cons by (simp only: split_ws_some)
qed

lemma split_ws_Nil: "split_ws [] = []"
  by (rule split_ws_none) simp

lemma split_ws_token:
  assumes "t \<noteq> []" and "\<forall>c\<in>set t. \<not> is_space c"
  shows "split_ws t = [t]" and "is_space d \<Longrightarrow> split_ws (t @ d # s) = t # split_ws s"
proof -
  obtain c cs where t: "t = c # cs" using assms(1) by (cases t) auto
  have c: "\<not> is_space c" and cs: "\<forall>x\<in>set cs. \<not> is_space x" using assms(2) t by auto
  have tw: "takeWhile (\<lambda>x. \<not> is_space x) cs = cs" using cs by (simp add: takeWhile_eq_all_conv)
  have dw: "dropWhile (\<lambda>x. \<not> is_space x) cs = []" using cs by simp
  show "split_ws t = [t]"
    unfolding t using split_ws_some[of "c # cs" c cs] by (simp add: c tw dw split_ws_Nil)
  assume d: "is_space d"
  have tw2: "takeWhile (\<lambda>x. \<not> is_space x) (cs @ d # s) = cs"
    using cs d by (simp add: takeWhile_append2)
  have dw2: "dropWhile (\<lambda>x. \<not> is_space x) (cs @ d # s) = d # s"
    using cs d by (simp add: dropWhile_append2)
  show "split_ws (t @ d # s) = t # split_ws s"
    unfolding t using split_ws_some[of "c # cs @ d # s" c "cs @ d # s"]
    by (simp add: c tw2 dw2 split_ws_space[OF d])
qed

lemma word_token_nonspace: "word_token t \<Longrightarrow> t \<noteq> [] \<and> (\<forall>c\<in>set t. \<not> is_space c)"
  by (auto simp: word_token_def dest: word_not_space)

lemma split_join: "\<forall>t\<in>set ts. word_token t \<Longrightarrow> split_ws (join_space ts) = ts"
proof (induction ts rule: join_space.induct)
  case 1
  show ?case by (simp add: split_ws_Nil)
next
  case (2 w)
  then show ?case using split_ws_token(1)[of w] word_token_nonspace[of w] by simp
next
  case (3 w v ws)
  have w: "w \<noteq> [] \<and> (\<forall>c\<in>set w. \<not> is_space c)" using 3(2) word_token_nonspace[of w] by simp
  have "split_ws (w @ CHR '' '' # join_space (v # ws)) = w # split_ws (join_space (v # ws))"
    using split_ws_token(2)[of w "CHR '' ''"] w space_is_space by blast
  with 3 show ?case by simp
qed

lemma nonspace_join: "\<forall>t\<in>set ts. word_token t \<Longrightarrow> nonspace (join_space ts) = sum_list (map length ts)"
proof (induction ts rule: join_space.induct)
  case (2 w)
  then have "\<forall>c\<in>set w. \<not> is_space c" using word_token_nonspace[of w] by simp
  then show ?case by (simp add: nonspace_def)
next
  case (3 w v ws)
  then have "\<forall>c\<in>set w. \<not> is_space c" using word_token_nonspace[of w] by simp
  then have "nonspace w = length w" by (simp add: nonspace_def)
  with 3 show ?case by (simp add: space_is_space)
qed simp

lemma nonspace_split: "sum_list (map length (split_ws s)) = nonspace s"
proof (induction s rule: split_ws.induct)
  case (1 s)
  show ?case
  proof (cases "dropWhile is_space s")
    case Nil
    then have "\<forall>c\<in>set s. is_space c" by (simp add: dropWhile_eq_Nil_conv)
    then have "nonspace s = 0" by (simp add: nonspace_def)
    with split_ws_none[OF Nil] show ?thesis by simp
  next
    case (Cons c cs)
    let ?P = "\<lambda>x. \<not> is_space x"
    have c: "\<not> is_space c" using Cons hd_dropWhile[of is_space s] by auto
    have a: "nonspace s = nonspace (c # cs)"
    proof -
      have "nonspace s = nonspace (takeWhile is_space s) + nonspace (dropWhile is_space s)"
        by (metis nonspace_simps(3) takeWhile_dropWhile_id)
      moreover have "nonspace (takeWhile is_space s) = 0"
        by (auto simp: nonspace_def filter_empty_conv dest: set_takeWhileD)
      ultimately show ?thesis using Cons by simp
    qed
    have b: "nonspace cs = nonspace (takeWhile ?P cs) + nonspace (dropWhile ?P cs)"
      by (metis nonspace_simps(3) takeWhile_dropWhile_id)
    have d: "nonspace (takeWhile ?P cs) = length (takeWhile ?P cs)"
      unfolding nonspace_def by (rule arg_cong[where f=length]) (auto simp: filter_id_conv dest: set_takeWhileD)
    have "sum_list (map length (split_ws s)) =
        length (takeWhile ?P (c # cs)) + sum_list (map length (split_ws (dropWhile ?P cs)))"
      by (simp add: split_ws_some[OF Cons])
    also have "\<dots> = Suc (length (takeWhile ?P cs)) + nonspace (dropWhile ?P cs)"
      using 1[OF Cons] c by simp
    also have "\<dots> = nonspace s" using a b c d by simp
    finally show ?thesis .
  qed
qed

lemma lit_nonspace_set:
  assumes "lit_nonspace lit s = Some r"
  shows "set r \<subseteq> set s"
proof -
  from assms obtain c rest where d: "drop (length lit) s = c # rest"
    and r: "r = dropWhile (\<lambda>x. \<not> is_space x) rest"
    by (auto simp: lit_nonspace_def split: if_splits list.splits)
  have "set r \<subseteq> set rest" unfolding r by (auto dest: set_dropWhileD)
  also have "\<dots> \<subseteq> set (drop (length lit) s)" using d by auto
  also have "\<dots> \<subseteq> set s" by (rule set_drop_subset)
  finally show ?thesis .
qed

lemma url_match_set: "url_match s = Some r \<Longrightarrow> set r \<subseteq> set s"
  by (auto simp: url_match_def split: option.splits dest: lit_nonspace_set)

lemma set_remove_urls: "set (remove_urls s) \<subseteq> set s"
proof (induction s rule: remove_urls.induct)
  case 1
  show ?case by simp
next
  case (2 c cs)
  show ?case
  proof (cases "url_match (c # cs)")
    case None
    with 2 show ?thesis by auto
  next
    case (Some r)
    have "set r \<subseteq> set (c # cs)" using Some by (rule url_match_set)
    with 2 Some show ?thesis by auto
  qed
qed


lemma lower_char_idem: "lower_char (lower_char c) = lower_char c"
  by (simp add: lower_char_def Let_def)

lemma lower_char_space: "lower_char CHR '' '' = CHR '' ''"
  by (simp add: lower_char_def)

lemma set_join_space: "set (join_space ts) \<subseteq> insert CHR '' '' (\<Union>(set ` set ts))"
  by (induction ts rule: join_space.induct) auto

lemma join_split_set: "set (join_space (split_ws s)) \<subseteq> insert CHR '' '' (set s)"
  using set_join_space[of "split_ws s"] split_ws_tokens[of _ s] by fastforce

lemma lower_clean_str: "lower (clean_str text) = clean_str text"
proof -
  have "set (clean_str text) \<subseteq> insert CHR '' '' (set (lower text))"
    unfolding clean_str_def
    using join_split_set[of "remove_special (remove_urls (lower text))"]
      set_remove_urls[of "lower text"]
    by (auto simp: remove_special_def)
  then have "\<forall>c\<in>set (clean_str text). lower_char c = c"
    using lower_char_idem lower_char_space by (auto simp: lower_def)
  then show ?thesis by (simp add: lower_def map_idI)
qed

lemma remove_special_clean_str: "remove_special (clean_str text) = clean_str text"
  using clean_str_shape[of "text"] space_is_space
  by (auto simp: clean_shape_def remove_special_def filter_id_conv)

lemma split_join_clean_str: "join_space (split_ws (clean_str text)) = clean_str text"
  unfolding clean_str_def
  by (subst split_join) (auto dest: clean_str_tokens)

lemma nonspace_filter: "nonspace (filter P s) \<le> nonspace s"
  by (induction s) auto

lemma nonspace_clean: "nonspace (join_space (split_ws (remove_special s))) \<le> nonspace s"
proof -
  have tok: "\<forall>t\<in>set (split_ws (remove_special s)). word_token t"
    using clean_str_tokens by blast
  have "nonspace (join_space (split_ws (remove_special s))) = nonspace (remove_special s)"
    using nonspace_join[OF tok] nonspace_split[of "remove_special s"] by simp
  also have "\<dots> \<le> nonspace s"
    unfolding remove_special_def by (rule nonspace_filter)
  finally show ?thesis .
qed

lemma clean_str_idem_iff:
  "clean_str (clean_str text) = clean_str text \<longleftrightarrow> \<not> has_url (clean_str text)"
proof
  assume eq: "clean_str (clean_str text) = clean_str text"
  show "\<not> has_url (clean_str text)"
  proof
    assume "has_url (clean_str text)"
    then have "nonspace (remove_urls (clean_str text)) < nonspace (clean_str text)"
      by (rule remove_urls_has_url)
    moreover have "nonspace (clean_str (clean_str text)) \<le> nonspace (remove_urls (clean_str text))"
      using nonspace_clean[of "remove_urls (clean_str text)"]
      by (simp add: clean_str_def[of "clean_str text"] lower_clean_str)
    ultimately show False using eq by simp
  qed
next
  assume "\<not> has_url (clean_str text)"
  then have "remove_urls (clean_str text) = clean_str text" by (rule remove_urls_no_url)
  then show "clean_str (clean_str text) = clean_str text"
    by (simp add: clean_str_def[of "clean_str text"] lower_clean_str remove_special_clean_str
        split_join_clean_str)
qed


section \<open>Properties of the trending topics\<close>

lemma bump_keys:
  "map fst (bump kvs w) = (if w \<in> set (map fst kvs) then map fst kvs else map fst kvs @ [w])"
  by (induction kvs w rule: bump.induct) auto

lemma bump_map_of:
  "distinct (map fst kvs) \<Longrightarrow>
   map_of (bump kvs w) = (map_of kvs)(w \<mapsto> (case map_of kvs w of None \<Rightarrow> 1 | Some c \<Rightarrow> c + 1))"
proof (induction kvs w rule: bump.induct)
  case (1 w)
  show ?case by simp
next
  case (2 k c kvs w)
  then show ?case by (auto simp: fun_upd_twist)
qed

lemma count_words_snoc: "count_words (ws @ [w]) = bump (count_words ws) w"
  by (simp add: count_words_def)

lemma first_index_snoc:
  "first_index (ws @ [w]) x = (if x \<in> set ws then first_index ws x else if x = w then length ws else Suc (length ws))"
proof (cases "x \<in> set ws")
  case True
  then show ?thesis by (simp add: first_index_def takeWhile_append1)
next
  case False
  then have "takeWhile (\<lambda>y. y \<noteq> x) (ws @ [w]) = ws @ takeWhile (\<lambda>y. y \<noteq> x) [w]"
    by (intro takeWhile_append2) auto
  with False show ?thesis by (simp add: first_index_def)
qed

lemma first_index_less: "x \<in> set ws \<Longrightarrow> first_index ws x < length ws"
  unfolding first_index_def by (induction ws) auto

text \<open>The counting loop: keys in first-encounter order, each with its number of occurrences.\<close>

lemma count_words_char:
  "distinct (map fst (count_words ws)) \<and>
   set (map fst (count_words ws)) = set ws \<and>
   sorted_wrt (\<lambda>a b. first_index ws a < first_index ws b) (map fst (count_words ws)) \<and>
   (\<forall>w\<in>set ws. map_of (count_words ws) w = Some (int (count_list ws w)))"
proof (induction ws rule: rev_induct)
  case Nil
  show ?case by (simp add: count_words_def)
next
  case (snoc w ws)
  let ?cw = "count_words ws"
  from snoc have d: "distinct (map fst ?cw)" and s: "set (map fst ?cw) = set ws"
    and o: "sorted_wrt (\<lambda>a b. first_index ws a < first_index ws b) (map fst ?cw)"
    and m: "\<forall>v\<in>set ws. map_of ?cw v = Some (int (count_list ws v))" by auto
  have keys: "map fst (count_words (ws @ [w])) = (if w \<in> set ws then map fst ?cw else map fst ?cw @ [w])"
    using bump_keys[of ?cw w] s by (simp add: count_words_snoc)
  have o': "sorted_wrt (\<lambda>a b. first_index (ws @ [w]) a < first_index (ws @ [w]) b) (map fst ?cw)"
  proof -
    have eq: "\<And>a. a \<in> set (map fst ?cw) \<Longrightarrow> first_index (ws @ [w]) a = first_index ws a"
      using s by (simp add: first_index_snoc)
    show ?thesis
      by (rule sorted_wrt_mono_rel[OF _ o]) (simp only: eq)
  qed
  have 1: "distinct (map fst (count_words (ws @ [w])))" using keys d s by auto
  have 2: "set (map fst (count_words (ws @ [w]))) = set (ws @ [w])" using keys s by auto
  have 3: "sorted_wrt (\<lambda>a b. first_index (ws @ [w]) a < first_index (ws @ [w]) b)
      (map fst (count_words (ws @ [w])))"
  proof (cases "w \<in> set ws")
    case True
    with keys o' show ?thesis by simp
  next
    case False
    have "\<forall>a\<in>set (map fst ?cw). first_index (ws @ [w]) a < first_index (ws @ [w]) w"
      using s False first_index_less[of _ ws] by (auto simp: first_index_snoc)
    with keys o' False show ?thesis by (simp add: sorted_wrt_append)
  qed
  have 4: "\<forall>v\<in>set (ws @ [w]). map_of (count_words (ws @ [w])) v = Some (int (count_list (ws @ [w]) v))"
  proof
    fix v assume v: "v \<in> set (ws @ [w])"
    have mo: "map_of (count_words (ws @ [w])) =
        (map_of ?cw)(w \<mapsto> (case map_of ?cw w of None \<Rightarrow> 1 | Some c \<Rightarrow> c + 1))"
      using bump_map_of[OF d] by (simp add: count_words_snoc)
    show "map_of (count_words (ws @ [w])) v = Some (int (count_list (ws @ [w]) v))"
    proof (cases "v = w")
      case True
      show ?thesis
      proof (cases "w \<in> set ws")
        case True
        with m have "map_of ?cw w = Some (int (count_list ws w))" by simp
        with \<open>v = w\<close> mo show ?thesis by simp
      next
        case False
        then have "w \<notin> fst ` set ?cw" using s by auto
        then have "map_of ?cw w = None" by (simp add: map_of_eq_None_iff)
        moreover have "count_list ws w = 0" using False by (simp add: count_list_0_iff)
        ultimately show ?thesis using \<open>v = w\<close> mo by simp
      qed
    next
      case False
      with v have "v \<in> set ws" by simp
      with m have "map_of ?cw v = Some (int (count_list ws v))" by simp
      with False mo show ?thesis by simp
    qed
  qed
  from 1 2 3 4 show ?case by blast
qed


lemma set_insert_desc: "set (insert_desc key x ys) = insert x (set ys)"
  by (induction ys) auto

lemma set_sorted_reverse: "set (sorted_reverse key xs) = set xs"
  by (induction xs) (simp_all add: sorted_reverse_def set_insert_desc)

text \<open>
  Stability: when the input is in some order \<open>Q\<close>, the output is ordered by key, the greater
  first, and by \<open>Q\<close> among equal keys.
\<close>

lemma insert_desc_sorted:
  assumes "sorted_wrt (\<lambda>a b. key b < key a \<or> (key a = key b \<and> Q a b)) ys"
    and "\<forall>y\<in>set ys. Q x y"
  shows "sorted_wrt (\<lambda>a b. key b < key a \<or> (key a = key b \<and> Q a b)) (insert_desc key x ys)"
  using assms
proof (induction ys)
  case Nil
  show ?case by simp
next
  case (Cons y ys)
  show ?case
  proof (cases "key x < key y")
    case True
    with Cons show ?thesis by (auto simp: set_insert_desc)
  next
    case False
    have "\<forall>z\<in>set (y # ys). key z \<le> key y" using Cons.prems(1) by auto
    with False have "\<forall>z\<in>set (y # ys). key z \<le> key x" by auto
    with Cons.prems False show ?thesis by (auto simp: order.strict_iff_order)
  qed
qed

lemma sorted_reverse_sorted:
  "sorted_wrt Q xs \<Longrightarrow>
   sorted_wrt (\<lambda>a b. key b < key a \<or> (key a = key b \<and> Q a b)) (sorted_reverse key xs)"
proof (induction xs)
  case Nil
  show ?case by (simp add: sorted_reverse_def)
next
  case (Cons x xs)
  have "sorted_reverse key (x # xs) = insert_desc key x (sorted_reverse key xs)"
    by (simp add: sorted_reverse_def)
  moreover have "\<forall>y\<in>set (sorted_reverse key xs). Q x y"
    using Cons.prems by (simp add: set_sorted_reverse)
  moreover have "sorted_wrt (\<lambda>a b. key b < key a \<or> (key a = key b \<and> Q a b)) (sorted_reverse key xs)"
    using Cons by simp
  ultimately show ?case by (simp add: insert_desc_sorted)
qed

lemma sorted_wrt_unique:
  assumes asym: "\<And>a b. P a b \<Longrightarrow> \<not> P b a"
  shows "sorted_wrt P xs \<Longrightarrow> sorted_wrt P ys \<Longrightarrow> set xs = set ys \<Longrightarrow> xs = ys"
proof (induction xs arbitrary: ys)
  case Nil
  then show ?case by simp
next
  case (Cons x xs)
  then obtain y ys' where ys: "ys = y # ys'" by (cases ys) auto
  have xy: "x = y"
  proof (rule ccontr)
    assume ne: "x \<noteq> y"
    then have "x \<in> set ys'" and "y \<in> set xs" using Cons.prems(3) ys by auto
    then have "P y x" and "P x y" using Cons.prems(1,2) ys by auto
    then show False using asym by blast
  qed
  have "x \<notin> set xs" using Cons.prems(1) asym by auto
  moreover have "y \<notin> set ys'" using Cons.prems(2) ys asym by auto
  ultimately have "set xs = set ys'" using Cons.prems(3) ys xy by auto
  moreover have "sorted_wrt P xs" and "sorted_wrt P ys'" using Cons.prems ys by auto
  ultimately have "xs = ys'" using Cons.IH by blast
  with xy ys show ?case by simp
qed

lemma set_count_words:
  "set (count_words ws) = set (map (\<lambda>w. (w, int (count_list ws w))) ws)"
proof -
  have d: "distinct (map fst (count_words ws))"
    and k: "set (map fst (count_words ws)) = set ws"
    and m: "\<forall>w\<in>set ws. map_of (count_words ws) w = Some (int (count_list ws w))"
    using count_words_char[of ws] by blast+
  show ?thesis
  proof (intro set_eqI iffI)
    fix p assume p: "p \<in> set (count_words ws)"
    then have "fst p \<in> set ws" using k by force
    moreover have "map_of (count_words ws) (fst p) = Some (snd p)"
      using p d by simp
    ultimately have "snd p = int (count_list ws (fst p))" using m by auto
    with \<open>fst p \<in> set ws\<close> show "p \<in> set (map (\<lambda>w. (w, int (count_list ws w))) ws)"
      by (cases p) auto
  next
    fix p assume "p \<in> set (map (\<lambda>w. (w, int (count_list ws w))) ws)"
    then obtain w where w: "w \<in> set ws" and p: "p = (w, int (count_list ws w))" by auto
    with m have "map_of (count_words ws) w = Some (int (count_list ws w))" by simp
    then show "p \<in> set (count_words ws)" using p by (simp add: map_of_SomeD)
  qed
qed

text \<open>The one-pass splitting gives the tokens of \<open>str.split\<close>.\<close>

lemma runs_from_split:
  "\<forall>c\<in>set run. \<not> is_space c \<Longrightarrow> runs_from run s = split_ws (rev run @ s)"
proof (induction s arbitrary: run)
  case Nil
  show ?case
  proof (cases "run = []")
    case True
    then show ?thesis by (simp add: split_ws_Nil)
  next
    case False
    then have "split_ws (rev run) = [rev run]" using Nil by (intro split_ws_token(1)) auto
    with False show ?thesis by simp
  qed
next
  case (Cons c cs)
  show ?case
  proof (cases "is_space c")
    case True
    show ?thesis
    proof (cases "run = []")
      case True
      with \<open>is_space c\<close> Cons.IH[of "[]"] show ?thesis by (simp add: split_ws_space)
    next
      case False
      then have "split_ws (rev run @ c # cs) = rev run # split_ws cs"
        using Cons.prems \<open>is_space c\<close> by (intro split_ws_token(2)) auto
      with False \<open>is_space c\<close> Cons.IH[of "[]"] show ?thesis by simp
    qed
  next
    case False
    then have "\<forall>x\<in>set (c # run). \<not> is_space x" using Cons.prems by simp
    from Cons.IH[OF this] False show ?thesis by simp
  qed
qed

lemma whitespace_tokens_split: "whitespace_tokens s = split_ws s"
  using runs_from_split[of "[]" s] by (simp add: whitespace_tokens_def)

lemma spec_tokens_topic_words: "spec_tokens texts = topic_words texts"
proof -
  have s: "set stop_words = {''the'', ''and'', ''is'', ''in'', ''to'', ''a'', ''for''}"
    unfolding stop_words_def by (simp only: list.set)
  have "(\<lambda>w. w \<notin> {''the'', ''and'', ''is'', ''in'', ''to'', ''a'', ''for''} \<and> \<not> length w \<le> 2) =
      (\<lambda>w. w \<notin> set stop_words \<and> length w > 2)"
    by (simp only: s not_le)
  then show ?thesis
    by (simp only: spec_tokens_def topic_words_def whitespace_tokens_split lower_def)
qed

lemma identify_trending_topics_meets_spec:
  "trending_spec texts min_count (identify_trending_topics texts min_count)"
proof -
  let ?ws = "topic_words texts"
  let ?P = "\<lambda>(w, c). c \<ge> min_count"
  let ?Q = "\<lambda>a b. first_index ?ws (fst a) < first_index ?ws (fst b)"
  have r: "identify_trending_topics texts min_count = sorted_reverse snd (filter ?P (count_words ?ws))"
    by (simp add: identify_trending_topics_def)
  have "sorted_wrt ?Q (count_words ?ws)"
    using count_words_char[of ?ws] by (simp add: sorted_wrt_map)
  then have "sorted_wrt ?Q (filter ?P (count_words ?ws))" by (rule sorted_wrt_filter)
  then have "sorted_wrt (\<lambda>a b. snd b < snd a \<or> (snd a = snd b \<and> ?Q a b))
      (sorted_reverse snd (filter ?P (count_words ?ws)))"
    by (rule sorted_reverse_sorted)
  then have o: "sorted_wrt (trending_order ?ws) (identify_trending_topics texts min_count)"
    unfolding r trending_order_def .
  have "set (identify_trending_topics texts min_count) =
      set (filter ?P (map (\<lambda>w. (w, int (count_list ?ws w))) ?ws))"
    unfolding r using set_count_words[of ?ws] by (simp add: set_sorted_reverse)
  with o show ?thesis by (simp add: trending_spec_def spec_tokens_topic_words)
qed

lemma trending_order_asym: "trending_order ws a b \<Longrightarrow> \<not> trending_order ws b a"
  by (auto simp: trending_order_def)

lemma trending_spec_unique:
  assumes "trending_spec texts min_count r1" and "trending_spec texts min_count r2"
  shows "r1 = r2"
proof -
  have "sorted_wrt (trending_order (spec_tokens texts)) r1"
    and "sorted_wrt (trending_order (spec_tokens texts)) r2"
    and "set r1 = set r2"
    using assms by (simp_all add: trending_spec_def Let_def)
  then show ?thesis
    using sorted_wrt_unique[of "trending_order (spec_tokens texts)" r1 r2] trending_order_asym
    by blast
qed

section \<open>Properties of the validator\<close>

lemma in_keys_iff: "name \<in> set (map fst df) \<longleftrightarrow> map_of df name \<noteq> None"
  by (simp add: map_of_eq_None_iff)

lemma required_present_iff:
  "list_all (\<lambda>col. col \<in> set (map fst df)) required_columns \<longleftrightarrow>
     map_of df ''title'' \<noteq> None \<and> map_of df ''text'' \<noteq> None \<and> map_of df ''score'' \<noteq> None \<and>
     map_of df ''created_utc'' \<noteq> None \<and> map_of df ''num_comments'' \<noteq> None \<and>
     map_of df ''upvote_ratio'' \<noteq> None"
  unfolding required_columns_def in_keys_iff by simp

lemma validate_iff:
  "validate_reddit_data obj \<longleftrightarrow> (\<exists>df. obj = DataFrame df \<and> valid_shape df)"
proof (cases obj)
  case NoFrame
  then show ?thesis by (simp add: validate_reddit_data_def)
next
  case (DataFrame df)
  have "validate_reddit_data (DataFrame df) \<longleftrightarrow> valid_shape df"
    unfolding validate_reddit_data_def validate_checks.simps required_present_iff
      valid_shape_def column_has_def get_column_def
    by (auto split: option.splits)
  with DataFrame show ?thesis by simp
qed

section \<open>Properties of the engagement metrics\<close>

lemma map_of_set_column: "map_of (set_column df name col) = (map_of df)(name \<mapsto> col)"
  by (induction df name col rule: set_column.induct) (auto simp: fun_upd_twist)

lemma get_set_column:
  "get_column (set_column df name col) n = (if n = name then Inr col else get_column df n)"
  by (simp add: get_column_def map_of_set_column)

lemma traverse_ok:
  "(\<forall>x\<in>set xs. \<exists>y. f x = Inr y) \<Longrightarrow>
   \<exists>ys. traverse f xs = Inr ys \<and> length ys = length xs \<and> (\<forall>i<length xs. f (xs ! i) = Inr (ys ! i))"
proof (induction xs)
  case Nil
  show ?case by simp
next
  case (Cons x xs)
  then obtain y where y: "f x = Inr y" by auto
  from Cons obtain ys where ys: "traverse f xs = Inr ys" "length ys = length xs"
    "\<forall>i<length xs. f (xs ! i) = Inr (ys ! i)" by auto
  have "\<forall>i<length (x # xs). f ((x # xs) ! i) = Inr ((y # ys) ! i)"
    using y ys(3) by (auto simp: nth_Cons split: nat.splits)
  with y ys show ?case by auto
qed

lemma traverse_InrD:
  "traverse f xs = Inr ys \<Longrightarrow>
   length ys = length xs \<and> (\<forall>i<length xs. f (xs ! i) = Inr (ys ! i))"
proof (induction xs arbitrary: ys)
  case Nil
  then show ?case by simp
next
  case (Cons x xs)
  from Cons.prems obtain y zs where y: "f x = Inr y" and zs: "traverse f xs = Inr zs"
    and ys: "ys = y # zs"
    by (auto split: sum.splits)
  from Cons.IH[OF zs] y ys show ?case by (auto simp: nth_Cons split: nat.splits)
qed

lemma wf_frame_column:
  assumes "wf_frame df" and "map_of df name = Some col"
  shows "length (cells col) = nrows df" and "\<forall>c\<in>set (cells col). cell_fits (dtype col) c"
proof -
  have "(name, col) \<in> set df" using assms(2) by (rule map_of_SomeD)
  then have "wf_column (nrows df) col" using assms(1) by (auto simp: wf_frame_def list_all_iff)
  then show "length (cells col) = nrows df" and "\<forall>c\<in>set (cells col). cell_fits (dtype col) c"
    by (simp_all add: wf_column_def list_all_iff)
qed


lemma isna_to_f64:
  assumes "isna c"
  shows "to_f64 c = Inr NaN"
proof (cases c)
  case (F x)
  with assms show ?thesis by (cases x) auto
qed (use assms in auto)

lemma float_mul_NaN [simp]: "float_mul fmt NaN y = NaN" "float_mul fmt x NaN = NaN"
  by (cases x; simp)+

lemma float_add_NaN [simp]: "float_add fmt NaN y = NaN" "float_add fmt x NaN = NaN"
  by (cases x; simp)+

lemma operand_type_of_format [simp]: "operand_type (dtype_of_format fmt) = fmt"
  by (cases fmt) auto

lemma to_f64_numeric:
  assumes "is_numeric_dtype d" and "cell_fits d c"
  shows "\<exists>x. to_f64 c = Inr x"
proof -
  have big: "(2::int) ^ 63 < 2 ^ 1024 - 2 ^ 970" by simp
  show ?thesis
  proof (cases d)
    case Int64
    with assms(2) obtain n where c: "c = I n" and n: "- (2 ^ 63) \<le> n" "n < 2 ^ 63"
      by (cases c) auto
    from n big have "\<bar>n\<bar> < 2 ^ 1024 - 2 ^ 970" by linarith
    with c show ?thesis by simp
  next
    case Float16
    with assms(2) show ?thesis by (cases c) auto
  next
    case Float32
    with assms(2) show ?thesis by (cases c) auto
  next
    case Float64
    with assms(2) show ?thesis by (cases c) auto
  next
    case Bool
    with assms(2) show ?thesis by (cases c) auto
  next
    case Datetime64
    with assms(1) show ?thesis by (simp add: is_numeric_dtype_def)
  next
    case Object
    with assms(1) show ?thesis by (simp add: is_numeric_dtype_def)
  qed
qed

lemma mul_scalar_numeric:
  assumes "is_numeric_dtype (dtype col)" and "\<forall>c\<in>set (cells col). cell_fits (dtype col) c"
  shows "\<exists>r. mul_scalar col k = Inr r \<and> dtype r = dtype_of_format (float_type (dtype col)) \<and>
           length (cells r) = length (cells col) \<and>
           (\<forall>i<length (cells col). \<exists>x. to_f64 (cells col ! i) = Inr x \<and>
               cells r ! i = F (float_mul (float_type (dtype col)) x k))"
proof -
  let ?t = "float_type (dtype col)"
  let ?f = "\<lambda>c. case to_f64 c of Inl e \<Rightarrow> Inl e | Inr x \<Rightarrow> Inr (F (float_mul ?t x k))"
  have "\<forall>c\<in>set (cells col). \<exists>y. ?f c = Inr y"
    using assms to_f64_numeric by fastforce
  from traverse_ok[OF this] obtain ys where ys: "traverse ?f (cells col) = Inr ys"
    "length ys = length (cells col)" "\<forall>i<length (cells col). ?f (cells col ! i) = Inr (ys ! i)"
    by blast
  have d: "dtype col \<noteq> Datetime64" "dtype col \<noteq> Object"
    using assms(1) by (auto simp: is_numeric_dtype_def)
  have "mul_scalar col k = Inr \<lparr>dtype = dtype_of_format ?t, cells = ys\<rparr>"
    using ys(1) d by (simp add: mul_scalar_def float_result_def)
  moreover have "\<forall>i<length (cells col). \<exists>x. to_f64 (cells col ! i) = Inr x \<and>
      ys ! i = F (float_mul ?t x k)"
  proof (intro allI impI)
    fix i assume "i < length (cells col)"
    with ys(3) have "?f (cells col ! i) = Inr (ys ! i)" by simp
    then show "\<exists>x. to_f64 (cells col ! i) = Inr x \<and> ys ! i = F (float_mul ?t x k)"
      by (cases "to_f64 (cells col ! i)") auto
  qed
  ultimately show ?thesis using ys(2) by auto
qed

text \<open>
  An operation that gives \<open>NaN\<close> on \<open>NaN\<close>, on two columns of numeric dtype whose cells are
  numbers.
\<close>

lemma float_binop_numeric:
  assumes "is_numeric_dtype (dtype l)" and "is_numeric_dtype (dtype r)"
    and "\<forall>c\<in>set (cells l). \<exists>x. to_f64 c = Inr x" and "\<forall>c\<in>set (cells r). \<exists>x. to_f64 c = Inr x"
    and "length (cells l) = length (cells r)"
    and nan: "\<And>t x. f t NaN x = NaN" "\<And>t x. f t x NaN = NaN"
  shows "\<exists>res. float_binop f l r = Inr res \<and>
           dtype res = dtype_of_format (wider (operand_type (dtype l)) (operand_type (dtype r))) \<and>
           length (cells res) = length (cells l) \<and>
           (\<forall>i<length (cells l). \<exists>x y. to_f64 (cells l ! i) = Inr x \<and> to_f64 (cells r ! i) = Inr y \<and>
               cells res ! i = F (f (wider (operand_type (dtype l)) (operand_type (dtype r))) x y))"
proof -
  let ?t = "wider (operand_type (dtype l)) (operand_type (dtype r))"
  let ?g = "\<lambda>(a, b). if isna a \<or> isna b then Inr (F NaN)
                     else case to_f64 a of Inl e \<Rightarrow> Inl e
                     | Inr x \<Rightarrow> (case to_f64 b of Inl e \<Rightarrow> Inl e | Inr y \<Rightarrow> Inr (F (f ?t x y)))"
  have g: "?g (a, b) = Inr (F (f ?t x y))" if "to_f64 a = Inr x" and "to_f64 b = Inr y" for a b x y
  proof (cases "isna a \<or> isna b")
    case True
    have "f ?t x y = NaN"
    proof (cases "isna a")
      case True
      from isna_to_f64[OF this] that(1) have "x = NaN" by simp
      then show ?thesis by (simp only: nan(1))
    next
      case False
      with \<open>isna a \<or> isna b\<close> have "isna b" by simp
      from isna_to_f64[OF this] that(2) have "y = NaN" by simp
      then show ?thesis by (simp only: nan(2))
    qed
    with True show ?thesis by simp
  next
    case False
    with that show ?thesis by simp
  qed
  have "\<forall>p\<in>set (zip (cells l) (cells r)). \<exists>y. ?g p = Inr y"
  proof
    fix p assume "p \<in> set (zip (cells l) (cells r))"
    moreover obtain a b where p: "p = (a, b)" by (cases p)
    ultimately have "a \<in> set (cells l)" and "b \<in> set (cells r)"
      by (auto dest: set_zip_leftD set_zip_rightD)
    then obtain x y where "to_f64 a = Inr x" and "to_f64 b = Inr y" using assms(3,4) by blast
    from g[OF this] show "\<exists>y. ?g p = Inr y" using p by blast
  qed
  from traverse_ok[OF this] obtain ys where ys: "traverse ?g (zip (cells l) (cells r)) = Inr ys"
    "length ys = length (zip (cells l) (cells r))"
    "\<forall>i<length (zip (cells l) (cells r)). ?g (zip (cells l) (cells r) ! i) = Inr (ys ! i)"
    by blast
  have d: "dtype l \<noteq> Datetime64" "dtype l \<noteq> Object" "dtype r \<noteq> Datetime64" "dtype r \<noteq> Object"
    using assms(1,2) by (auto simp: is_numeric_dtype_def)
  have "float_binop f l r = Inr \<lparr>dtype = dtype_of_format ?t, cells = ys\<rparr>"
    using ys(1) d by (simp add: float_binop_def float_result_def Let_def)
  moreover have "\<forall>i<length (cells l). \<exists>x y. to_f64 (cells l ! i) = Inr x \<and>
      to_f64 (cells r ! i) = Inr y \<and> ys ! i = F (f ?t x y)"
  proof (intro allI impI)
    fix i assume i: "i < length (cells l)"
    have j: "i < length (cells r)" using i assms(5) by simp
    have z: "zip (cells l) (cells r) ! i = (cells l ! i, cells r ! i)" using i j by simp
    have "i < length (zip (cells l) (cells r))" using i j by simp
    with ys(3) have "?g (zip (cells l) (cells r) ! i) = Inr (ys ! i)" by blast
    then have e: "?g (cells l ! i, cells r ! i) = Inr (ys ! i)" by (simp only: z)
    have "cells l ! i \<in> set (cells l)" and "cells r ! i \<in> set (cells r)" using i j by simp_all
    then obtain x y where xy: "to_f64 (cells l ! i) = Inr x" "to_f64 (cells r ! i) = Inr y"
      using assms(3,4) by blast
    from g[OF xy] e have "ys ! i = F (f ?t x y)" by simp
    with xy show "\<exists>x y. to_f64 (cells l ! i) = Inr x \<and> to_f64 (cells r ! i) = Inr y \<and>
        ys ! i = F (f ?t x y)" by blast
  qed
  ultimately show ?thesis using ys(2) assms(5) by auto
qed

lemma all_cells_float:
  assumes "length (cells r) = n" and "\<forall>i<n. \<exists>x. cells r ! i = F x"
  shows "\<forall>c\<in>set (cells r). \<exists>x. to_f64 c = Inr x"
proof
  fix c assume "c \<in> set (cells r)"
  then obtain i where "i < length (cells r)" and "cells r ! i = c" by (auto simp: in_set_conv_nth)
  with assms obtain x where "c = F x" by auto
  then show "\<exists>x. to_f64 c = Inr x" by simp
qed

lemma num_at_cell:
  assumes "map_of df name = Some col" and "i < length (cells col)" and "to_f64 (cells col ! i) = Inr x"
  shows "num_at df name i = Some x"
  using assms by (simp add: num_at_def cell_at_def)

lemma numeric_format: "is_numeric_dtype (dtype_of_format fmt)"
  by (cases fmt) (auto simp: is_numeric_dtype_def)

lemma engagement_score_valid:
  assumes v: "valid_shape df" and wf: "wf_frame df"
  shows "\<exists>col d_score d_comments d_ratio.
           engagement_score df = Inr col \<and> length (cells col) = nrows df \<and>
           column_dtype df ''score'' = Some d_score \<and>
           column_dtype df ''num_comments'' = Some d_comments \<and>
           column_dtype df ''upvote_ratio'' = Some d_ratio \<and>
           (\<forall>i<nrows df. \<exists>s c u. num_at df ''score'' i = Some s \<and>
               num_at df ''num_comments'' i = Some c \<and> num_at df ''upvote_ratio'' i = Some u \<and>
               cells col ! i = F (engagement_formula_in d_score d_comments d_ratio s c u))"
proof -
  from v obtain sc nc ur where
    sc: "map_of df ''score'' = Some sc" "is_numeric_dtype (dtype sc)" and
    nc: "map_of df ''num_comments'' = Some nc" "is_numeric_dtype (dtype nc)" and
    ur: "map_of df ''upvote_ratio'' = Some ur" "is_float_dtype (dtype ur)"
    by (auto simp: valid_shape_def column_has_def split: option.splits)
  let ?n = "nrows df"
  let ?ts = "float_type (dtype sc)" and ?tc = "float_type (dtype nc)"
  let ?t2 = "wider ?ts ?tc"
  let ?t3 = "wider ?t2 (operand_type (dtype ur))"
  note wsc = wf_frame_column[OF wf sc(1)] and wnc = wf_frame_column[OF wf nc(1)]
    and wur = wf_frame_column[OF wf ur(1)]
  from mul_scalar_numeric[OF sc(2) wsc(2), of "Finite 1"] obtain a where
    a: "mul_scalar sc (Finite 1) = Inr a" "dtype a = dtype_of_format ?ts" "length (cells a) = ?n"
    "\<forall>i<?n. \<exists>x. to_f64 (cells sc ! i) = Inr x \<and> cells a ! i = F (float_mul ?ts x (Finite 1))"
    using wsc(1) by auto
  from mul_scalar_numeric[OF nc(2) wnc(2), of "Finite 2"] obtain b where
    b: "mul_scalar nc (Finite 2) = Inr b" "dtype b = dtype_of_format ?tc" "length (cells b) = ?n"
    "\<forall>i<?n. \<exists>x. to_f64 (cells nc ! i) = Inr x \<and> cells b ! i = F (float_mul ?tc x (Finite 2))"
    using wnc(1) by auto
  have fa: "\<forall>c\<in>set (cells a). \<exists>x. to_f64 c = Inr x"
    using all_cells_float[OF a(3)] a(4) by blast
  have fb: "\<forall>c\<in>set (cells b). \<exists>x. to_f64 c = Inr x"
    using all_cells_float[OF b(3)] b(4) by blast
  have na: "is_numeric_dtype (dtype a)" and nb: "is_numeric_dtype (dtype b)"
    using a(2) b(2) numeric_format by auto
  from float_binop_numeric[OF na nb fa fb, of float_add] obtain s where
    s: "float_binop float_add a b = Inr s" "dtype s = dtype_of_format ?t2" "length (cells s) = ?n"
    "\<forall>i<?n. \<exists>x y. to_f64 (cells a ! i) = Inr x \<and> to_f64 (cells b ! i) = Inr y \<and>
        cells s ! i = F (float_add ?t2 x y)"
    using a(2,3) b(2,3) by auto
  have fs: "\<forall>c\<in>set (cells s). \<exists>x. to_f64 c = Inr x"
    using all_cells_float[OF s(3)] s(4) by blast
  have ns: "is_numeric_dtype (dtype s)" using s(2) numeric_format by auto
  have dur: "is_numeric_dtype (dtype ur)"
    using ur(2) by (auto simp: is_float_dtype_def is_numeric_dtype_def)
  have fu: "\<forall>c\<in>set (cells ur). \<exists>x. to_f64 c = Inr x"
    using to_f64_numeric[OF dur] wur(2) by blast
  from float_binop_numeric[OF ns dur fs fu, of float_mul] obtain e where
    e: "float_binop float_mul s ur = Inr e" "length (cells e) = ?n"
    "\<forall>i<?n. \<exists>x y. to_f64 (cells s ! i) = Inr x \<and> to_f64 (cells ur ! i) = Inr y \<and>
        cells e ! i = F (float_mul ?t3 x y)"
    using s(2,3) wur(1) by auto
  have res: "engagement_score df = Inr e"
    using sc(1) nc(1) ur(1) a(1) b(1) s(1) e(1) by (simp add: engagement_score_def get_column_def)
  have "\<forall>i<?n. \<exists>s c u. num_at df ''score'' i = Some s \<and>
      num_at df ''num_comments'' i = Some c \<and> num_at df ''upvote_ratio'' i = Some u \<and>
      cells e ! i = F (engagement_formula_in (dtype sc) (dtype nc) (dtype ur) s c u)"
  proof (intro allI impI)
    fix i assume i: "i < ?n"
    from a(4) i obtain x where x: "to_f64 (cells sc ! i) = Inr x"
      "cells a ! i = F (float_mul ?ts x (Finite 1))" by blast
    from b(4) i obtain y where y: "to_f64 (cells nc ! i) = Inr y"
      "cells b ! i = F (float_mul ?tc y (Finite 2))" by blast
    from s(4) i x(2) y(2) have si: "cells s ! i =
        F (float_add ?t2 (float_mul ?ts x (Finite 1)) (float_mul ?tc y (Finite 2)))"
      by auto
    from e(3) i obtain u where u: "to_f64 (cells ur ! i) = Inr u"
      "cells e ! i = F (float_mul ?t3
          (float_add ?t2 (float_mul ?ts x (Finite 1)) (float_mul ?tc y (Finite 2))) u)"
      using si by auto
    have "num_at df ''score'' i = Some x" using num_at_cell[OF sc(1) _ x(1)] i wsc(1) by simp
    moreover have "num_at df ''num_comments'' i = Some y"
      using num_at_cell[OF nc(1) _ y(1)] i wnc(1) by simp
    moreover have "num_at df ''upvote_ratio'' i = Some u"
      using num_at_cell[OF ur(1) _ u(1)] i wur(1) by simp
    ultimately show "\<exists>s c u. num_at df ''score'' i = Some s \<and>
      num_at df ''num_comments'' i = Some c \<and> num_at df ''upvote_ratio'' i = Some u \<and>
      cells e ! i = F (engagement_formula_in (dtype sc) (dtype nc) (dtype ur) s c u)"
      using u(2) by (simp add: engagement_formula_in_def Let_def)
  qed
  with res e(2) sc(1) nc(1) ur(1) show ?thesis by (simp add: column_dtype_def)
qed

text \<open>On columns of 64-bit integers and floats the arithmetic is that of float64.\<close>

lemma engagement_formula_double:
  assumes "d_score = Int64 \<or> d_score = Float64 \<or> d_score = Bool"
    and "d_comments = Int64 \<or> d_comments = Float64 \<or> d_comments = Bool"
  shows "engagement_formula_in d_score d_comments d_ratio s c u = engagement_formula s c u"
  using assms
  by (auto simp: engagement_formula_in_def engagement_formula_def f64_mul_def f64_add_def)

lemma hour_of_range: "0 \<le> hour_of t \<and> hour_of t \<le> 23"
  by (simp add: hour_of_def)

lemma day_name_of_name: "day_name_of t \<in> set day_names"
proof -
  have "0 \<le> weekday_of t" and "weekday_of t < 7" by (simp_all add: weekday_of_def)
  then have "nat (weekday_of t) < length day_names" by (simp add: day_names_def)
  then show ?thesis unfolding day_name_of_def by (rule nth_mem)
qed

text \<open>The three assignments on a validated, well-formed frame.\<close>

lemma engagement_steps_valid:
  assumes v: "valid_shape df" and wf: "wf_frame df"
  shows "\<exists>score created.
           engagement_score df = Inr score \<and> map_of df ''created_utc'' = Some created \<and>
           engagement_steps df =
             (None, set_column (set_column (set_column df ''engagement_score'' score)
                ''hour_of_day'' \<lparr>dtype = (if has_nat created then Float64 else Int64),
                                  cells = map (hour_cell (has_nat created)) (cells created)\<rparr>)
                ''day_of_week'' \<lparr>dtype = Object, cells = map day_name_cell (cells created)\<rparr>)"
proof -
  from engagement_score_valid[OF v wf] obtain score where sc: "engagement_score df = Inr score" by blast
  from v obtain created where cr: "map_of df ''created_utc'' = Some created"
    "dtype created = Datetime64"
    by (auto simp: valid_shape_def column_has_def is_datetime64_any_dtype_def split: option.splits)
  have g0: "get_column df ''created_utc'' = Inr created" using cr(1) by (simp add: get_column_def)
  have g1: "get_column (set_column df ''engagement_score'' score) ''created_utc'' = Inr created"
    using g0 by (simp add: get_set_column)
  have g2: "\<And>h. get_column (set_column (set_column df ''engagement_score'' score) ''hour_of_day'' h)
      ''created_utc'' = Inr created"
    using g0 by (simp add: get_set_column)
  show ?thesis
    using sc cr g1 g2 by (simp add: engagement_steps_def dt_hour_def dt_day_name_def Let_def)
qed


text \<open>Rounding at a tie: the significand with the even last digit is taken.\<close>

lemma round_half_even_tie:
  assumes "x = of_int m + 1 / 2" and "even m"
  shows "round_half_even x = m"
proof -
  have "\<lfloor>x\<rfloor> = m" using assms(1) by (intro floor_unique) auto
  then show ?thesis using assms by (simp add: round_half_even_def Let_def)
qed

lemma round_to_tie:
  assumes "0 < x" and "pow2 k \<le> x" and "x < pow2 (k + 1)"
    and "least_exponent fmt \<le> k - (precision fmt - 1)"
    and "x / pow2 (k - (precision fmt - 1)) = of_int m + 1 / 2" and "even m"
    and "of_int m * pow2 (k - (precision fmt - 1)) < pow2 (overflow_exponent fmt)"
  shows "round_to fmt x = Finite (of_int m * pow2 (k - (precision fmt - 1)))"
proof -
  let ?e = "k - (precision fmt - 1)"
  have "ilog2 \<bar>x\<bar> = k" using assms(1-3) by (simp add: ilog2_unique)
  moreover have "max ?e (least_exponent fmt) = ?e" using assms(4) by simp
  moreover have "round_half_even (\<bar>x\<bar> / pow2 ?e) = m"
    using assms(1,5,6) by (simp add: round_half_even_tie)
  ultimately show ?thesis using assms(1,7) by (simp add: round_to_def Let_def)
qed

text \<open>
  The formula in float32, on a score of 16777215 with one comment and the ratio 1: the
  sum 16777217 is no float32 and is rounded to 16777216.
\<close>

lemma engagement_example_single:
  "engagement_formula_in Float32 Float32 Float32 (Finite 16777215) (Finite 1) (Finite 1) =
     Finite 16777216"
proof -
  have a: "round_to Single 16777215 = Finite 16777215"
    using round_to_near[of 16777215 23 Single 16777215] by simp
  have b: "round_to Single 2 = Finite 2"
    using round_to_near[of 2 1 Single "2 ^ 23"] by simp
  have c: "round_to Single 16777217 = Finite 16777216"
    using round_to_tie[of 16777217 24 Single 8388608] by simp
  have d: "round_to Single 16777216 = Finite 16777216"
    using round_to_near[of 16777216 24 Single 8388608] by simp
  show ?thesis by (simp add: engagement_formula_in_def a b c d)
qed


section \<open>Claim about the trending topics\<close>

text \<open>
  C3: for every list of texts and every threshold, \<open>identify_trending_topics\<close> returns
  exactly the list the specification describes (\<open>trending_spec\<close>, which does not use the
  definitions made from the code): the pairs of a token and its count, over the tokens
  \<open>spec_tokens\<close> obtained by joining the texts, lowercasing, splitting on whitespace and
  dropping the stop words \<open>the, and, is, in, to, a, for\<close> and the tokens of length at
  most 2, for the tokens whose count reaches the threshold, by count descending, ties in
  first-encountered order.
\<close>

theorem identify_trending_topics_exact:
  "trending_spec texts min_count result \<longleftrightarrow> result = identify_trending_topics texts min_count"
  using identify_trending_topics_meets_spec trending_spec_unique by blast

theorem identify_trending_topics_exact_witness:
  "identify_trending_topics
     [''the moon and the moon'', ''bitcoin is up up up'', ''Bitcoin moon bitcoin to the the'']
     default_min_count = [(''moon'', 3), (''bitcoin'', 3)] \<and>
   trending_spec
     [''the moon and the moon'', ''bitcoin is up up up'', ''Bitcoin moon bitcoin to the the'']
     default_min_count [(''moon'', 3), (''bitcoin'', 3)] \<and>
   spec_tokens
     [''the moon and the moon'', ''bitcoin is up up up'', ''Bitcoin moon bitcoin to the the''] =
     [''moon'', ''moon'', ''bitcoin'', ''bitcoin'', ''moon'', ''bitcoin'']"
proof -
  have t: "spec_tokens
     [''the moon and the moon'', ''bitcoin is up up up'', ''Bitcoin moon bitcoin to the the''] =
     [''moon'', ''moon'', ''bitcoin'', ''bitcoin'', ''moon'', ''bitcoin'']" by code_simp
  have e: "identify_trending_topics
     [''the moon and the moon'', ''bitcoin is up up up'', ''Bitcoin moon bitcoin to the the'']
     default_min_count = [(''moon'', 3), (''bitcoin'', 3)]" by code_simp
  show ?thesis
    using e t identify_trending_topics_exact[of
        "[''the moon and the moon'', ''bitcoin is up up up'', ''Bitcoin moon bitcoin to the the'']"
        default_min_count "[(''moon'', 3), (''bitcoin'', 3)]"]
    by simp
qed


section \<open>Claims about text normalisation\<close>

text \<open>
  C5 (as stated): normalisation is idempotent, \<open>clean(clean(x)) == clean(x)\<close> for every
  string \<open>x\<close>. It is not: deleting punctuation can assemble a URL-like token that the
  next pass deletes. The text \<open>w.w.w.example.com\<close> holds no \<open>www\<close>; it is normalised
  to \<open>wwwexamplecom\<close>, which the second pass takes for a URL and normalises to the
  empty string.
\<close>

theorem clean_text_not_idempotent:
  "clean_text (S ''w.w.w.example.com'') = Inr ''wwwexamplecom'' \<and>
   clean_text (S ''wwwexamplecom'') = Inr [] \<and>
   clean_str (clean_str ''w.w.w.example.com'') \<noteq> clean_str ''w.w.w.example.com''"
  by code_simp

text \<open>
  C5 (amended): on a string \<open>x\<close>, \<open>clean_text\<close> returns \<open>clean_str x\<close>, and a second pass
  returns the same text exactly when the first result holds no match of the URL pattern
  (\<open>http\<close> or \<open>www\<close> followed by a further non-space character).
\<close>

theorem clean_text_idempotent_iff:
  "clean_text (S x) = Inr (clean_str x) \<and>
   (clean_text (S (clean_str x)) = Inr (clean_str x) \<longleftrightarrow> \<not> has_url (clean_str x))"
  using clean_str_idem_iff[of x] by simp

theorem clean_text_idempotent_witness:
  "\<not> has_url (clean_str ''Visit http://a.com now!'') \<and>
   clean_text (S (clean_str ''Visit http://a.com now!'')) = Inr (clean_str ''Visit http://a.com now!'') \<and>
   clean_str ''Visit http://a.com now!'' = ''visit now''"
proof -
  have h: "\<not> has_url (clean_str ''Visit http://a.com now!'')" by code_simp
  have v: "clean_str ''Visit http://a.com now!'' = ''visit now''" by code_simp
  show ?thesis using h v clean_text_idempotent_iff[of "''Visit http://a.com now!''"] by blast
qed

text \<open>
  C10 (as stated): for every input \<open>clean_text\<close> returns a string. It does not for a list
  of two or more elements, on which the missing-value test, made before the \<open>try\<close>,
  raises.
\<close>

theorem clean_text_list_raises:
  "clean_text (SL [''a'', ''b'']) = Inl ValueError"
  by simp

text \<open>
  C10 (amended): for every input that is not a list (a string, a missing value such as
  \<open>None\<close>, \<open>NaN\<close> or \<open>NaT\<close>, a number, a boolean, a timestamp), \<open>clean_text\<close> returns a
  string that holds only word characters and spaces, has no whitespace at either end
  and no two spaces in a row; the string is empty when the input is not a string.
\<close>

theorem clean_text_shape:
  "\<not> is_list c \<Longrightarrow> \<exists>s. clean_text c = Inr s \<and> clean_shape s \<and> (\<not> is_str c \<longrightarrow> s = [])"
  by (cases c) (simp_all add: clean_str_shape, simp_all add: clean_shape_def)

theorem clean_text_shape_witness:
  "\<not> is_list (S ''Check out $AAPL and @wallstreetbets! http://example.com'') \<and>
   clean_text (S ''Check out $AAPL and @wallstreetbets! http://example.com'') =
     Inr ''check out aapl and wallstreetbets'' \<and>
   clean_shape ''check out aapl and wallstreetbets'' \<and>
   clean_text (F NaN) = Inr []"
proof -
  have e: "clean_text (S ''Check out $AAPL and @wallstreetbets! http://example.com'') =
     Inr ''check out aapl and wallstreetbets''" by code_simp
  have "clean_shape ''check out aapl and wallstreetbets''"
    using clean_text_shape[of "S ''Check out $AAPL and @wallstreetbets! http://example.com''"] e
    by simp
  moreover have "clean_text (F NaN) = Inr []"
    using clean_text_shape[of "F NaN"] by simp
  ultimately show ?thesis using e by simp
qed


section \<open>Claim about the validator\<close>

text \<open>
  C4: \<open>validate_reddit_data\<close> returns a boolean on every object and never raises: it
  returns true exactly on a DataFrame that has the six required columns, a numeric
  \<open>score\<close> and \<open>num_comments\<close>, a datetime \<open>created_utc\<close>, a float \<open>upvote_ratio\<close> and no missing
  value in \<open>title\<close>, so false whenever one of these fails; and when the checks raise an
  exception, it returns false.
\<close>

theorem validate_reddit_data_fail_closed:
  "validate_reddit_data obj = (case obj of DataFrame df \<Rightarrow> valid_shape df | NoFrame \<Rightarrow> False) \<and>
   (validate_checks obj = Inl e \<longrightarrow> \<not> validate_reddit_data obj)"
  using validate_iff[of obj]
  by (cases obj) (auto simp: validate_reddit_data_def)

theorem validate_reddit_data_fail_closed_witness:
  "validate_checks NoFrame = Inl AttributeError \<and> \<not> validate_reddit_data NoFrame \<and>
   validate_reddit_data (DataFrame sample_reddit_data) \<and>
   \<not> validate_reddit_data (DataFrame (filter (\<lambda>(name, col). name \<noteq> ''upvote_ratio'') sample_reddit_data)) \<and>
   \<not> validate_reddit_data (DataFrame (set_column sample_reddit_data ''title''
        \<lparr>dtype = Object, cells = [S ''AAPL earnings discussion'', PyNone, S ''GME to the moon'']\<rparr>)) \<and>
   \<not> validate_reddit_data (DataFrame epoch_post)"
proof -
  have 1: "validate_checks NoFrame = Inl AttributeError" by simp
  have 2: "\<not> validate_reddit_data NoFrame"
    using validate_reddit_data_fail_closed[of NoFrame AttributeError] 1 by simp
  have 3: "validate_reddit_data (DataFrame sample_reddit_data)"
    using validate_reddit_data_fail_closed[of "DataFrame sample_reddit_data"]
    by (simp add: sample_reddit_data_def valid_shape_def column_has_def
        is_numeric_dtype_def is_datetime64_any_dtype_def is_float_dtype_def)
  have 4: "\<not> validate_reddit_data
      (DataFrame (filter (\<lambda>(name, col). name \<noteq> ''upvote_ratio'') sample_reddit_data))"
    using validate_reddit_data_fail_closed[of
        "DataFrame (filter (\<lambda>(name, col). name \<noteq> ''upvote_ratio'') sample_reddit_data)"]
    by (simp add: sample_reddit_data_def valid_shape_def column_has_def)
  have 5: "\<not> validate_reddit_data (DataFrame (set_column sample_reddit_data ''title''
        \<lparr>dtype = Object, cells = [S ''AAPL earnings discussion'', PyNone, S ''GME to the moon'']\<rparr>))"
    using validate_reddit_data_fail_closed[of "DataFrame (set_column sample_reddit_data ''title''
        \<lparr>dtype = Object, cells = [S ''AAPL earnings discussion'', PyNone, S ''GME to the moon'']\<rparr>)"]
    by (simp add: sample_reddit_data_def valid_shape_def column_has_def)
  have 6: "\<not> validate_reddit_data (DataFrame epoch_post)"
    using validate_reddit_data_fail_closed[of "DataFrame epoch_post"]
    by (simp add: epoch_post_def valid_shape_def column_has_def is_numeric_dtype_def
        is_datetime64_any_dtype_def)
  from 1 2 3 4 5 6 show ?thesis by blast
qed


section \<open>Claims about the engagement metrics\<close>

text \<open>
  C2 (as stated): every row of a validated dataset gets an \<open>hour_of_day\<close> in 0..23 and a
  day name. The validator admits a datetime column with missing timestamps; for such a
  row the hour is \<open>NaN\<close> and so is the day.
\<close>

theorem undated_post_has_no_hour:
  "validate_reddit_data (DataFrame undated_post) \<and> wf_frame undated_post \<and>
   cell_at undated_post ''created_utc'' 0 = Some NaT \<and>
   cell_at (calculate_engagement_metrics undated_post) ''hour_of_day'' 0 = Some (F NaN) \<and>
   cell_at (calculate_engagement_metrics undated_post) ''day_of_week'' 0 = Some (F NaN)"
  by (simp add: undated_post_def validate_iff valid_shape_def column_has_def
      is_numeric_dtype_def is_datetime64_any_dtype_def is_float_dtype_def
      wf_frame_def wf_column_def
      calculate_engagement_metrics_def engagement_steps_def engagement_score_def get_column_def
      mul_scalar_def float_binop_def float_result_def dt_hour_def dt_day_name_def has_nat_def
      cell_at_def Let_def sample_floats)

text \<open>
  C2 (amended): on a validated, well-formed dataset whose columns have the dtype int64,
  float16, float32, float64, bool, datetime64 or object, the step raises nothing, and for
  every row it sets \<open>engagement_score\<close> to \<open>(score * 1.0 + num_comments * 2.0) * upvote_ratio\<close>,
  each operation rounded in the float type that its columns bring (\<open>engagement_formula_in\<close>:
  float64 unless the columns are float32 or float16); for every row whose \<open>created_utc\<close>
  is a timestamp it sets \<open>hour_of_day\<close> to the hour, which lies in 0..23 (a float when the
  column also holds a missing timestamp), and \<open>day_of_week\<close> to the name of the day;
  for a row whose \<open>created_utc\<close> is missing both are \<open>NaN\<close>.
\<close>

theorem engagement_metrics_rows:
  assumes "validate_reddit_data (DataFrame df)" and "wf_frame df" and "i < nrows df"
  shows "fst (engagement_steps df) = None \<and>
    (\<exists>d_score d_comments d_ratio s c u.
       column_dtype df ''score'' = Some d_score \<and>
       column_dtype df ''num_comments'' = Some d_comments \<and>
       column_dtype df ''upvote_ratio'' = Some d_ratio \<and>
       num_at df ''score'' i = Some s \<and> num_at df ''num_comments'' i = Some c \<and>
       num_at df ''upvote_ratio'' i = Some u \<and>
       cell_at (calculate_engagement_metrics df) ''engagement_score'' i =
         Some (F (engagement_formula_in d_score d_comments d_ratio s c u))) \<and>
    (\<forall>t. cell_at df ''created_utc'' i = Some (T t) \<longrightarrow>
       0 \<le> hour_of t \<and> hour_of t \<le> 23 \<and> day_name_of t \<in> set day_names \<and>
       cell_at (calculate_engagement_metrics df) ''hour_of_day'' i =
         Some (if column_has df ''created_utc'' has_nat then F (f64_of_int (hour_of t))
               else I (hour_of t)) \<and>
       cell_at (calculate_engagement_metrics df) ''day_of_week'' i = Some (S (day_name_of t))) \<and>
    (cell_at df ''created_utc'' i = Some NaT \<longrightarrow>
       cell_at (calculate_engagement_metrics df) ''hour_of_day'' i = Some (F NaN) \<and>
       cell_at (calculate_engagement_metrics df) ''day_of_week'' i = Some (F NaN))"
proof -
  have v: "valid_shape df" using assms(1) by (simp add: validate_iff)
  from engagement_steps_valid[OF v assms(2)] obtain score created where
    sc: "engagement_score df = Inr score" and cr: "map_of df ''created_utc'' = Some created" and
    st: "engagement_steps df =
       (None, set_column (set_column (set_column df ''engagement_score'' score)
          ''hour_of_day'' \<lparr>dtype = (if has_nat created then Float64 else Int64),
                            cells = map (hour_cell (has_nat created)) (cells created)\<rparr>)
          ''day_of_week'' \<lparr>dtype = Object, cells = map day_name_cell (cells created)\<rparr>)"
    by blast
  from engagement_score_valid[OF v assms(2)] sc obtain d_score d_comments d_ratio where
    len: "length (cells score) = nrows df" and
    dt: "column_dtype df ''score'' = Some d_score" "column_dtype df ''num_comments'' = Some d_comments"
      "column_dtype df ''upvote_ratio'' = Some d_ratio" and
    rows: "\<forall>i<nrows df. \<exists>s c u. num_at df ''score'' i = Some s \<and>
       num_at df ''num_comments'' i = Some c \<and> num_at df ''upvote_ratio'' i = Some u \<and>
       cells score ! i = F (engagement_formula_in d_score d_comments d_ratio s c u)"
    by auto
  from rows assms(3) obtain s c u where
    row: "num_at df ''score'' i = Some s" "num_at df ''num_comments'' i = Some c"
      "num_at df ''upvote_ratio'' i = Some u"
      "cells score ! i = F (engagement_formula_in d_score d_comments d_ratio s c u)"
    by blast
  have lc: "length (cells created) = nrows df" using wf_frame_column(1)[OF assms(2) cr] .
  let ?df = "calculate_engagement_metrics df"
  have e: "cell_at ?df ''engagement_score'' i = Some (cells score ! i)"
    using st len assms(3) by (simp add: calculate_engagement_metrics_def cell_at_def map_of_set_column)
  have h: "cell_at ?df ''hour_of_day'' i = Some (hour_cell (has_nat created) (cells created ! i))"
    using st lc assms(3) by (simp add: calculate_engagement_metrics_def cell_at_def map_of_set_column)
  have d: "cell_at ?df ''day_of_week'' i = Some (day_name_cell (cells created ! i))"
    using st lc assms(3) by (simp add: calculate_engagement_metrics_def cell_at_def map_of_set_column)
  have c: "cell_at df ''created_utc'' i = Some (cells created ! i)"
    using cr lc assms(3) by (simp add: cell_at_def)
  have hn: "column_has df ''created_utc'' has_nat = has_nat created"
    using cr by (simp add: column_has_def)
  have 1: "fst (engagement_steps df) = None" using st by simp
  have 2: "\<exists>d_score d_comments d_ratio s c u.
       column_dtype df ''score'' = Some d_score \<and>
       column_dtype df ''num_comments'' = Some d_comments \<and>
       column_dtype df ''upvote_ratio'' = Some d_ratio \<and>
       num_at df ''score'' i = Some s \<and> num_at df ''num_comments'' i = Some c \<and>
       num_at df ''upvote_ratio'' i = Some u \<and>
       cell_at ?df ''engagement_score'' i =
         Some (F (engagement_formula_in d_score d_comments d_ratio s c u))"
    using dt row e by auto
  have 3: "\<forall>t. cell_at df ''created_utc'' i = Some (T t) \<longrightarrow>
       0 \<le> hour_of t \<and> hour_of t \<le> 23 \<and> day_name_of t \<in> set day_names \<and>
       cell_at ?df ''hour_of_day'' i =
         Some (if column_has df ''created_utc'' has_nat then F (f64_of_int (hour_of t))
               else I (hour_of t)) \<and>
       cell_at ?df ''day_of_week'' i = Some (S (day_name_of t))"
    using c h d hn hour_of_range day_name_of_name by auto
  have 4: "cell_at df ''created_utc'' i = Some NaT \<longrightarrow>
       cell_at ?df ''hour_of_day'' i = Some (F NaN) \<and>
       cell_at ?df ''day_of_week'' i = Some (F NaN)"
    using c h d by auto
  from 1 2 3 4 show ?thesis by blast
qed

theorem engagement_metrics_rows_witness:
  "validate_reddit_data (DataFrame sample_reddit_data) \<and> wf_frame sample_reddit_data \<and>
   0 < nrows sample_reddit_data \<and>
   fst (engagement_steps sample_reddit_data) = None \<and>
   cell_at (calculate_engagement_metrics sample_reddit_data) ''engagement_score'' 0 =
     Some (F (Finite 190)) \<and>
   cell_at (calculate_engagement_metrics sample_reddit_data) ''hour_of_day'' 0 = Some (I 12) \<and>
   cell_at (calculate_engagement_metrics sample_reddit_data) ''day_of_week'' 0 = Some (S ''Monday'') \<and>
   validate_reddit_data (DataFrame single_post) \<and> wf_frame single_post \<and>
   cell_at (calculate_engagement_metrics single_post) ''engagement_score'' 0 =
     Some (F (Finite 16777216))"
proof -
  have v: "validate_reddit_data (DataFrame sample_reddit_data)"
    by (simp add: sample_reddit_data_def validate_iff valid_shape_def column_has_def
        is_numeric_dtype_def is_datetime64_any_dtype_def is_float_dtype_def)
  have w: "wf_frame sample_reddit_data"
    by (simp add: sample_reddit_data_def wf_frame_def wf_column_def)
  have n: "0 < nrows sample_reddit_data" by (simp add: sample_reddit_data_def)
  note r = engagement_metrics_rows[OF v w n]
  have dts: "column_dtype sample_reddit_data ''score'' = Some Int64"
    "column_dtype sample_reddit_data ''num_comments'' = Some Int64"
    "column_dtype sample_reddit_data ''upvote_ratio'' = Some Float64"
    by (simp_all add: sample_reddit_data_def column_dtype_def)
  have s: "num_at sample_reddit_data ''score'' 0 = Some (f64_of_int 100)"
    and c: "num_at sample_reddit_data ''num_comments'' 0 = Some (f64_of_int 50)"
    and u: "num_at sample_reddit_data ''upvote_ratio'' 0 = Some (fl (95 / 100))"
    by (simp_all add: sample_reddit_data_def num_at_def cell_at_def)
  have t: "cell_at sample_reddit_data ''created_utc'' 0 = Some (T 1705321800000000000)"
    by (simp add: sample_reddit_data_def cell_at_def)
  have nn: "\<not> column_has sample_reddit_data ''created_utc'' has_nat"
    by (simp add: sample_reddit_data_def column_has_def has_nat_def)
  have hr: "hour_of 1705321800000000000 = 12" by (simp add: hour_of_def ns_per_hour_def)
  have dn: "day_name_of 1705321800000000000 = ''Monday''"
    by (simp add: day_name_of_def weekday_of_def ns_per_day_def day_names_def)
  have ex: "engagement_formula_in Int64 Int64 Float64 (f64_of_int 100) (f64_of_int 50)
      (fl (95 / 100)) = Finite 190"
    using engagement_example by (simp add: engagement_formula_double engagement_formula_def)
  have 1: "cell_at (calculate_engagement_metrics sample_reddit_data) ''engagement_score'' 0 =
     Some (F (Finite 190))"
    using r dts s c u ex by auto
  have 2: "cell_at (calculate_engagement_metrics sample_reddit_data) ''hour_of_day'' 0 = Some (I 12)"
    using r t nn hr by auto
  have 3: "cell_at (calculate_engagement_metrics sample_reddit_data) ''day_of_week'' 0 =
     Some (S ''Monday'')"
    using r t dn by auto
  have v2: "validate_reddit_data (DataFrame single_post)"
    by (simp add: single_post_def validate_iff valid_shape_def column_has_def
        is_numeric_dtype_def is_datetime64_any_dtype_def is_float_dtype_def)
  have w2: "wf_frame single_post" by (simp add: single_post_def wf_frame_def wf_column_def)
  have n2: "0 < nrows single_post" by (simp add: single_post_def)
  note r2 = engagement_metrics_rows[OF v2 w2 n2]
  have dts2: "column_dtype single_post ''score'' = Some Float32"
    "column_dtype single_post ''num_comments'' = Some Float32"
    "column_dtype single_post ''upvote_ratio'' = Some Float32"
    by (simp_all add: single_post_def column_dtype_def)
  have n3: "num_at single_post ''score'' 0 = Some (Finite 16777215)"
    "num_at single_post ''num_comments'' 0 = Some (Finite 1)"
    "num_at single_post ''upvote_ratio'' 0 = Some (Finite 1)"
    by (simp_all add: single_post_def num_at_def cell_at_def)
  have 4: "cell_at (calculate_engagement_metrics single_post) ''engagement_score'' 0 =
     Some (F (Finite 16777216))"
    using r2 dts2 n3 engagement_example_single by auto
  from v w n r 1 2 3 v2 w2 4 show ?thesis by blast
qed




end
